theory Spec2Isabelle
  imports Complex_Main "HOL-Library.AList"
begin

section \<open>Python values\<close>

text \<open>
  The routine compiler of \<^verbatim>\<open>src/routine.py\<close> is embedded as pure functions. Exceptions are
  values of \<open>error\<close>; a function that can raise returns \<open>error + 'a\<close> with \<open>Inl\<close> the
  exception. Only the exception classes the code under study can meet are listed.
\<close>

datatype error = ValueError | TypeError | OSError | ZeroDivisionError | AttributeError | CsvError

text \<open>
  The values that reach a constructor: the text fields of a row, the defaults of the
  signatures, the floats a Point hands to \<^verbatim>\<open>move\<close>. \<open>PNone\<close> stands for a value whose
  type is not one of \<^verbatim>\<open>Component.PRIMITIVES = {int, str, bool, float}\<close>. A float is
  represented by the real number it denotes: the code parses, stores and passes floats
  on and never computes with them.
\<close>

datatype pyval = PStr string | PInt int | PBool bool | PFloat real | PNone

type_synonym kwargs = "(string \<times> pyval) list"

fun is_primitive :: "pyval \<Rightarrow> bool" where
  "is_primitive PNone = False"
| "is_primitive _ = True"

definition digit_char :: "nat \<Rightarrow> char" where
  "digit_char d = char_of (48 + d)"

fun str_nat :: "nat \<Rightarrow> string" where
  "str_nat n = (if n < 10 then [digit_char n] else str_nat (n div 10) @ [digit_char (n mod 10)])"

declare str_nat.simps [simp del]

definition str_int :: "int \<Rightarrow> string" where
  "str_int i = (if i < 0 then CHR ''-'' # str_nat (nat (- i)) else str_nat (nat i))"

definition is_digit :: "char \<Rightarrow> bool" where
  "is_digit c = (48 \<le> (of_char c :: nat) \<and> (of_char c :: nat) \<le> 57)"

definition digits_value :: "string \<Rightarrow> nat" where
  "digits_value s = foldl (\<lambda>acc c. 10 * acc + ((of_char c :: nat) - 48)) 0 s"

text \<open>\<^verbatim>\<open>int(s)\<close> on text, for an optional sign followed by decimal digits.\<close>

definition int_of_str :: "string \<Rightarrow> error + int" where
  "int_of_str s =
     (case s of
        [] \<Rightarrow> Inl ValueError
      | c # t \<Rightarrow>
          if c = CHR ''-'' \<or> c = CHR ''+'' then
            (if t \<noteq> [] \<and> list_all is_digit t
             then Inr (if c = CHR ''-'' then - int (digits_value t) else int (digits_value t))
             else Inl ValueError)
          else if list_all is_digit s then Inr (int (digits_value s))
          else Inl ValueError)"

text \<open>\<^verbatim>\<open>str.lower\<close> and \<^verbatim>\<open>str.strip\<close>, on ASCII text.\<close>

definition lower_char :: "char \<Rightarrow> char" where
  "lower_char c =
     (if 65 \<le> (of_char c :: nat) \<and> (of_char c :: nat) \<le> 90
      then char_of ((of_char c :: nat) + 32) else c)"

definition lower :: "string \<Rightarrow> string" where
  "lower s = map lower_char s"

definition is_space :: "char \<Rightarrow> bool" where
  "is_space c =
     ((of_char c :: nat) = 32 \<or> (9 \<le> (of_char c :: nat) \<and> (of_char c :: nat) \<le> 13) \<or>
      (28 \<le> (of_char c :: nat) \<and> (of_char c :: nat) \<le> 31))"

definition strip :: "string \<Rightarrow> string" where
  "strip s = rev (dropWhile is_space (rev (dropWhile is_space s)))"

section \<open>The collaborators of the compiler\<close>

text \<open>
  An Action (a \<^verbatim>\<open>Command\<close> subclass) comes from the external command book. Of an instance
  the code under study reads the \<^verbatim>\<open>id\<close> (the class name, set by \<^verbatim>\<open>Command.__init__\<close>) and
  the captured constructor arguments \<^verbatim>\<open>_args\<close>.
\<close>

record component =
  ident :: string
  init_args :: kwargs

type_synonym command = component

record command_class =
  class_name :: string
  construct :: "pyval list \<Rightarrow> kwargs \<Rightarrow> error + command"

text \<open>
  Everything the module imports and does not define: the enabled flag \<^verbatim>\<open>config.enabled\<close>,
  the command book \<^verbatim>\<open>config.command_book\<close>, the table \<^verbatim>\<open>settings.SETTING_VALIDATORS\<close>,
  the file system behind \<^verbatim>\<open>open\<close>, the path separators of \<^verbatim>\<open>os.path\<close> (\<^verbatim>\<open>/\<close>, and on
  Windows the backslash too), and the interpreter's \<^verbatim>\<open>float(s)\<close> and \<^verbatim>\<open>str(f)\<close>.
\<close>

record env =
  enabled :: bool
  path_seps :: "char list"
  command_book :: "string \<rightharpoonup> command_class"
  SETTING_VALIDATORS :: "string \<rightharpoonup> (pyval \<Rightarrow> error + pyval)"
  files :: "string \<rightharpoonup> string"
  float_of_str :: "string \<Rightarrow> error + real"
  str_of_float :: "real \<Rightarrow> string"

definition py_str :: "env \<Rightarrow> pyval \<Rightarrow> string" where
  "py_str env v =
     (case v of
        PStr s \<Rightarrow> s
      | PInt i \<Rightarrow> str_int i
      | PBool b \<Rightarrow> (if b then ''True'' else ''False'')
      | PFloat f \<Rightarrow> str_of_float env f
      | PNone \<Rightarrow> ''None'')"

definition py_float :: "env \<Rightarrow> pyval \<Rightarrow> error + real" where
  "py_float env v =
     (case v of
        PStr s \<Rightarrow> float_of_str env s
      | PInt i \<Rightarrow> Inr (of_int i)
      | PBool b \<Rightarrow> Inr (if b then 1 else 0)
      | PFloat f \<Rightarrow> Inr f
      | PNone \<Rightarrow> Inl TypeError)"

subsection \<open>The helpers of \<^verbatim>\<open>utils\<close>\<close>

text \<open>
  Modelled from the spec: \<^verbatim>\<open>utils.validate_nonzero_int\<close> is not among the sources. The
  spec's data model gives \<open>frequency\<close> as a positive integer, and an invalid argument is
  a construction failure; the signatures pass the integer 1 as the default and the rows
  pass text.
\<close>

definition validate_nonzero_int :: "pyval \<Rightarrow> error + int" where
  "validate_nonzero_int v =
     (case (case v of PInt i \<Rightarrow> Inr i | PStr s \<Rightarrow> int_of_str s | _ \<Rightarrow> Inl ValueError) of
        Inl e \<Rightarrow> Inl e
      | Inr i \<Rightarrow> if 1 \<le> i then Inr i else Inl ValueError)"

text \<open>
  Modelled from the spec: \<^verbatim>\<open>utils.validate_boolean\<close> is not among the sources. The spec
  names the texts \<^verbatim>\<open>True\<close> and \<^verbatim>\<open>False\<close> as the truthy and falsy strings; the signatures
  pass the text \<^verbatim>\<open>False\<close> as the default.
\<close>

definition validate_boolean :: "pyval \<Rightarrow> error + bool" where
  "validate_boolean v =
     (case v of
        PBool b \<Rightarrow> Inr b
      | PStr s \<Rightarrow> if s = ''True'' then Inr True else if s = ''False'' then Inr False
                  else Inl ValueError
      | _ \<Rightarrow> Inl ValueError)"

text \<open>
  Modelled from the spec: \<^verbatim>\<open>utils.separate_args\<close> is not among the sources. The fields
  after the first split into positional arguments and keyword arguments: the first
  \<^verbatim>\<open>=\<close> of a field splits key from value, a field without \<^verbatim>\<open>=\<close> is positional, and
  leading and trailing whitespace is trimmed. The keyword arguments are a Python
  dictionary: a repeated key keeps its place and takes the later value.
\<close>

definition split_eq :: "string \<Rightarrow> (string \<times> string) option" where
  "split_eq a =
     (if CHR ''='' \<in> set a
      then Some (takeWhile (\<lambda>c. c \<noteq> CHR ''='') a, tl (dropWhile (\<lambda>c. c \<noteq> CHR ''='') a))
      else None)"

definition separate_arg :: "pyval list \<times> kwargs \<Rightarrow> string \<Rightarrow> pyval list \<times> kwargs" where
  "separate_arg acc a =
     (case split_eq (strip a) of
        None \<Rightarrow> (fst acc @ [PStr (strip a)], snd acc)
      | Some (k, v) \<Rightarrow> (fst acc, AList.update (strip k) (PStr (strip v)) (snd acc)))"

definition separate_args :: "string list \<Rightarrow> pyval list \<times> kwargs" where
  "separate_args arguments = foldl separate_arg ([], []) arguments"

subsection \<open>Calling a constructor\<close>

text \<open>
  \<^verbatim>\<open>c(*args, **kwargs)\<close>: positional arguments fill the parameters in order, keyword
  arguments fill the rest by name, defaults fill what is left. Too many positional
  arguments, a keyword that names no free parameter (unknown, or already filled) and a
  parameter left without a value raise \<^verbatim>\<open>TypeError\<close>. The result lists the parameters in
  the order of the signature, as \<^verbatim>\<open>locals()\<close> does.
\<close>

type_synonym param = "string \<times> pyval option"

fun bind_positional :: "param list \<Rightarrow> pyval list \<Rightarrow> error + (kwargs \<times> param list)" where
  "bind_positional ps [] = Inr ([], ps)"
| "bind_positional [] (a # as) = Inl TypeError"
| "bind_positional (p # ps) (a # as) =
     (case bind_positional ps as of
        Inl e \<Rightarrow> Inl e
      | Inr (b, r) \<Rightarrow> Inr ((fst p, a) # b, r))"

fun bind_keywords :: "param list \<Rightarrow> kwargs \<Rightarrow> error + kwargs" where
  "bind_keywords [] kw = Inr []"
| "bind_keywords (p # ps) kw =
     (case (case map_of kw (fst p) of Some v \<Rightarrow> Some v | None \<Rightarrow> snd p) of
        None \<Rightarrow> Inl TypeError
      | Some v \<Rightarrow>
          (case bind_keywords ps kw of
             Inl e \<Rightarrow> Inl e
           | Inr b \<Rightarrow> Inr ((fst p, v) # b)))"

definition bind_args :: "param list \<Rightarrow> pyval list \<Rightarrow> kwargs \<Rightarrow> error + kwargs" where
  "bind_args ps args kw =
     (case bind_positional ps args of
        Inl e \<Rightarrow> Inl e
      | Inr (b, r) \<Rightarrow>
          if list_all (\<lambda>k. k \<in> set (map fst r)) (map fst kw)
          then (case bind_keywords r kw of Inl e \<Rightarrow> Inl e | Inr b' \<Rightarrow> Inr (b @ b'))
          else Inl TypeError)"

section \<open>Routine components\<close>

text \<open>
  Objects live in a heap and are referred to by address: a Label is shared by the
  sequence, by \<^verbatim>\<open>Routine.labels\<close> and by the Jumps bound to it, and a Point of the
  sequence receives its commands after it was appended.
\<close>

type_synonym addr = nat

text \<open>\<^verbatim>\<open>class Point(Component)\<close>, with \<^verbatim>\<open>id = '*'\<close>.\<close>

record point = component +
  point_x :: real
  point_y :: real
  location :: "real \<times> real"
  frequency :: int
  counter :: int
  adjust :: bool
  commands :: "command list"

text \<open>\<^verbatim>\<open>class Label(Component)\<close>, with \<^verbatim>\<open>id = '@'\<close>; \<open>index\<close> is \<open>None\<close> until \<^verbatim>\<open>set_index\<close>.\<close>

record label = component +
  label :: string
  links :: "addr set"
  index :: "nat option"

text \<open>\<^verbatim>\<open>class Jump(Component)\<close>, with \<^verbatim>\<open>id = '>'\<close>; \<open>link\<close> is the address of the bound Label.\<close>

record jump = component +
  label :: string
  frequency :: int
  counter :: int
  link :: "addr option"

text \<open>\<^verbatim>\<open>class Setting(Component)\<close>, with \<^verbatim>\<open>id = '$'\<close>.\<close>

record setting = component +
  key :: string
  setting_value :: pyval

datatype obj = Point point | Label label | Jump jump | Setting setting | Command command

definition arg :: "kwargs \<Rightarrow> string \<Rightarrow> pyval" where
  "arg b k = (case map_of b k of Some v \<Rightarrow> v | None \<Rightarrow> PNone)"

definition Point_params :: "param list" where
  "Point_params =
     [(''x'', None), (''y'', None), (''frequency'', Some (PInt 1)),
      (''skip'', Some (PStr ''False'')), (''adjust'', Some (PStr ''False''))]"

text \<open>
  \<^verbatim>\<open>Point.__init__(self, x, y, frequency=1, skip='False', adjust='False')\<close>, on the bound
  arguments \<open>b\<close> (\<^verbatim>\<open>locals()\<close> without \<^verbatim>\<open>self\<close> and \<^verbatim>\<open>__class__\<close>).
\<close>

definition Point_init :: "env \<Rightarrow> kwargs \<Rightarrow> error + point" where
  "Point_init env b =
     (case py_float env (arg b ''x'') of Inl e \<Rightarrow> Inl e | Inr fx \<Rightarrow>
      case py_float env (arg b ''y'') of Inl e \<Rightarrow> Inl e | Inr fy \<Rightarrow>
      case validate_nonzero_int (arg b ''frequency'') of Inl e \<Rightarrow> Inl e | Inr f \<Rightarrow>
      case validate_boolean (arg b ''skip'') of Inl e \<Rightarrow> Inl e | Inr s \<Rightarrow>
      case validate_boolean (arg b ''adjust'') of Inl e \<Rightarrow> Inl e | Inr a \<Rightarrow>
        Inr \<lparr>ident = ''*'', init_args = b, point_x = fx, point_y = fy, location = (fx, fy),
             point.frequency = f, point.counter = (if s then 1 else 0), adjust = a,
             commands = []\<rparr>)"

definition Label_params :: "param list" where
  "Label_params = [(''label'', None)]"

text \<open>\<^verbatim>\<open>Label.__init__(self, label)\<close>; \<open>lbls\<close> is \<^verbatim>\<open>Routine.labels\<close>.\<close>

definition Label_init :: "env \<Rightarrow> (string \<rightharpoonup> addr) \<Rightarrow> kwargs \<Rightarrow> error + label" where
  "Label_init env lbls b =
     (if lbls (py_str env (arg b ''label'')) \<noteq> None then Inl ValueError
      else Inr \<lparr>ident = ''@'', init_args = b, label.label = py_str env (arg b ''label''),
                links = {}, index = None\<rparr>)"

definition Jump_params :: "param list" where
  "Jump_params = [(''label'', None), (''frequency'', Some (PInt 1)), (''skip'', Some (PStr ''False''))]"

text \<open>\<^verbatim>\<open>Jump.__init__(self, label, frequency=1, skip='False')\<close>.\<close>

definition Jump_init :: "env \<Rightarrow> kwargs \<Rightarrow> error + jump" where
  "Jump_init env b =
     (case validate_nonzero_int (arg b ''frequency'') of Inl e \<Rightarrow> Inl e | Inr f \<Rightarrow>
      case validate_boolean (arg b ''skip'') of Inl e \<Rightarrow> Inl e | Inr s \<Rightarrow>
        Inr \<lparr>ident = ''>'', init_args = b, jump.label = py_str env (arg b ''label''),
             jump.frequency = f, jump.counter = (if s then 1 else 0), link = None\<rparr>)"

definition Setting_params :: "param list" where
  "Setting_params = [(''key'', None), (''value'', None)]"

text \<open>\<^verbatim>\<open>Setting.__init__(self, key, value)\<close>.\<close>

definition Setting_init :: "env \<Rightarrow> kwargs \<Rightarrow> error + setting" where
  "Setting_init env b =
     (case SETTING_VALIDATORS env (py_str env (arg b ''key'')) of
        None \<Rightarrow> Inl ValueError
      | Some validator \<Rightarrow>
          (case validator (arg b ''value'') of
             Inl e \<Rightarrow> Inl e
           | Inr v \<Rightarrow> Inr \<lparr>ident = ''$'', init_args = b, key = py_str env (arg b ''key''),
                         setting_value = v\<rparr>))"

subsection \<open>Encoding\<close>

text \<open>
  \<^verbatim>\<open>Component.encode\<close>: the id, then \<^verbatim>\<open>key=value\<close> for every captured argument whose key is
  not \<^verbatim>\<open>id\<close> and whose value is of a primitive type, joined by a comma and a space.
\<close>

fun join :: "string \<Rightarrow> string list \<Rightarrow> string" where
  "join sep [] = []"
| "join sep [s] = s"
| "join sep (s # t # ss) = s @ sep @ join sep (t # ss)"

definition encode_arg :: "env \<Rightarrow> string \<times> pyval \<Rightarrow> string" where
  "encode_arg env kv = fst kv @ ''='' @ py_str env (snd kv)"

definition Component_encode :: "env \<Rightarrow> 'a component_scheme \<Rightarrow> string" where
  "Component_encode env c =
     join '', ''
       (ident c #
        map (encode_arg env) (filter (\<lambda>kv. fst kv \<noteq> ''id'' \<and> is_primitive (snd kv)) (init_args c)))"

text \<open>\<^verbatim>\<open>Label.encode\<close> puts a line break first.\<close>

definition Label_encode :: "env \<Rightarrow> label \<Rightarrow> string" where
  "Label_encode env l = CHR 0x0A # Component_encode env l"

definition encode :: "env \<Rightarrow> obj \<Rightarrow> string" where
  "encode env ob =
     (case ob of
        Point p \<Rightarrow> Component_encode env p
      | Label l \<Rightarrow> Label_encode env l
      | Jump j \<Rightarrow> Component_encode env j
      | Setting s \<Rightarrow> Component_encode env s
      | Command c \<Rightarrow> Component_encode env c)"

section \<open>Reading the rows of a file\<close>

text \<open>
  \<^verbatim>\<open>csv.reader(f, skipinitialspace=True)\<close> over a file opened with \<^verbatim>\<open>newline=''\<close>: the
  standard library's reader with the default dialect (delimiter comma, quote character
  \<^verbatim>\<open>"\<close>, doubled quotes, not strict). The file yields its lines with their endings
  (\<^verbatim>\<open>\n\<close>, \<^verbatim>\<open>\r\<close> or \<^verbatim>\<open>\r\n\<close>); the reader runs its state machine over the characters of
  a line and then over the end-of-line mark, here \<open>None\<close>, until a record is complete.
\<close>

fun readlines :: "string \<Rightarrow> string \<Rightarrow> string list" where
  "readlines cur [] = (if cur = [] then [] else [cur])"
| "readlines cur (c # cs) =
     (if c = CHR 0x0A then (cur @ [c]) # readlines [] cs
      else if c = CHR 0x0D then
        (case cs of
           [] \<Rightarrow> [cur @ [c]]
         | d # ds \<Rightarrow> if d = CHR 0x0A then (cur @ [c, d]) # readlines [] ds
                     else (cur @ [c]) # readlines [] cs)
      else readlines (cur @ [c]) cs)"

datatype csv_state =
  START_RECORD | START_FIELD | IN_FIELD | IN_QUOTED_FIELD | QUOTE_IN_QUOTED_FIELD | EAT_CRNL

record reader =
  rstate :: csv_state
  rfields :: "string list"
  rfield :: string

definition parse_reset :: reader where
  "parse_reset = \<lparr>rstate = START_RECORD, rfields = [], rfield = []\<rparr>"

definition parse_save_field :: "reader \<Rightarrow> reader" where
  "parse_save_field rd = rd\<lparr>rfields := rfields rd @ [rfield rd], rfield := []\<rparr>"

definition parse_add_char :: "reader \<Rightarrow> char \<Rightarrow> reader" where
  "parse_add_char rd c = rd\<lparr>rfield := rfield rd @ [c]\<rparr>"

definition is_eol :: "char \<Rightarrow> bool" where
  "is_eol c = (c = CHR 0x0A \<or> c = CHR 0x0D)"

definition end_of_field :: "reader \<Rightarrow> char option \<Rightarrow> reader" where
  "end_of_field rd c =
     (parse_save_field rd)\<lparr>rstate := (if c = None then START_RECORD else EAT_CRNL)\<rparr>"

definition start_field :: "reader \<Rightarrow> char option \<Rightarrow> reader" where
  "start_field rd c =
     (case c of
        None \<Rightarrow> end_of_field rd c
      | Some ch \<Rightarrow>
          if is_eol ch then end_of_field rd c
          else if ch = CHR 0x22 then rd\<lparr>rstate := IN_QUOTED_FIELD\<rparr>
          else if ch = CHR '' '' then rd\<lparr>rstate := START_FIELD\<rparr>
          else if ch = CHR '','' then (parse_save_field rd)\<lparr>rstate := START_FIELD\<rparr>
          else (parse_add_char rd ch)\<lparr>rstate := IN_FIELD\<rparr>)"

definition parse_process_char :: "reader \<Rightarrow> char option \<Rightarrow> error + reader" where
  "parse_process_char rd c =
     (case rstate rd of
        START_RECORD \<Rightarrow>
          (case c of
             None \<Rightarrow> Inr rd
           | Some ch \<Rightarrow> if is_eol ch then Inr (rd\<lparr>rstate := EAT_CRNL\<rparr>)
                        else Inr (start_field rd c))
      | START_FIELD \<Rightarrow> Inr (start_field rd c)
      | IN_FIELD \<Rightarrow>
          (case c of
             None \<Rightarrow> Inr (end_of_field rd c)
           | Some ch \<Rightarrow>
               if is_eol ch then Inr (end_of_field rd c)
               else if ch = CHR '','' then Inr ((parse_save_field rd)\<lparr>rstate := START_FIELD\<rparr>)
               else Inr (parse_add_char rd ch))
      | IN_QUOTED_FIELD \<Rightarrow>
          (case c of
             None \<Rightarrow> Inr rd
           | Some ch \<Rightarrow>
               if ch = CHR 0x22 then Inr (rd\<lparr>rstate := QUOTE_IN_QUOTED_FIELD\<rparr>)
               else Inr (parse_add_char rd ch))
      | QUOTE_IN_QUOTED_FIELD \<Rightarrow>
          (case c of
             None \<Rightarrow> Inr (end_of_field rd c)
           | Some ch \<Rightarrow>
               if ch = CHR 0x22 then Inr ((parse_add_char rd ch)\<lparr>rstate := IN_QUOTED_FIELD\<rparr>)
               else if ch = CHR '','' then Inr ((parse_save_field rd)\<lparr>rstate := START_FIELD\<rparr>)
               else if is_eol ch then Inr (end_of_field rd c)
               else Inr ((parse_add_char rd ch)\<lparr>rstate := IN_FIELD\<rparr>))
      | EAT_CRNL \<Rightarrow>
          (case c of
             None \<Rightarrow> Inr (rd\<lparr>rstate := START_RECORD\<rparr>)
           | Some ch \<Rightarrow> if is_eol ch then Inr rd else Inl CsvError))"

fun process_chars :: "reader \<Rightarrow> string \<Rightarrow> error + reader" where
  "process_chars rd [] = parse_process_char rd None"
| "process_chars rd (c # cs) =
     (case parse_process_char rd (Some c) of
        Inl e \<Rightarrow> Inl e
      | Inr rd' \<Rightarrow> process_chars rd' cs)"

text \<open>
  \<^verbatim>\<open>Reader.__next__\<close>, for all the lines: a record ends with the line that brings the
  machine back to \<open>START_RECORD\<close>. When the lines end inside a quoted field, what was read
  is the last record.
\<close>

fun read_records :: "reader \<Rightarrow> string list \<Rightarrow> error + string list list" where
  "read_records rd [] =
     (if rfield rd \<noteq> [] \<or> rstate rd = IN_QUOTED_FIELD
      then Inr [rfields (parse_save_field rd)] else Inr [])"
| "read_records rd (l # ls) =
     (case process_chars rd l of
        Inl e \<Rightarrow> Inl e
      | Inr rd' \<Rightarrow>
          if rstate rd' = START_RECORD then
            (case read_records parse_reset ls of
               Inl e \<Rightarrow> Inl e
             | Inr rs \<Rightarrow> Inr (rfields rd' # rs))
          else read_records rd' ls)"

definition csv_reader :: "string \<Rightarrow> error + string list list" where
  "csv_reader text = read_records parse_reset (readlines [] text)"

section \<open>The Routine\<close>

text \<open>
  What the code prints and what it asks of its collaborators, in order. The display
  notification of the \<^verbatim>\<open>update\<close> decorator and the calls into \<^verbatim>\<open>config.gui\<close> and \<^verbatim>\<open>Layout\<close>
  read nothing back and are left out.
\<close>

datatype event =
    Loading
  | UsingPreviousPath
  | NoPathProvided
  | UnsupportedExtension string
  | SettingsReset
  | Finished
  | UnknownCommand nat string
  | InvalidArguments nat string error
  | LabelMissing string
  | Executed command
  | SettingWritten string pyval

text \<open>
  \<open>labels\<close> and \<open>index\<close> are the class attributes \<^verbatim>\<open>Routine.labels\<close> and \<^verbatim>\<open>Routine.index\<close>
  (the program counter), \<open>path\<close> and \<open>sequence\<close> the attributes of the instance. The index
  is a number, or \<open>None\<close> once a Jump copied the index of a Label that never had one.
\<close>

record routine =
  heap :: "obj list"
  labels :: "string \<rightharpoonup> addr"
  index :: "nat option"
  path :: string
  sequence :: "addr list"

text \<open>\<^verbatim>\<open>Routine.__init__\<close>, with the class attributes as the module sets them.\<close>

definition Routine_init :: routine where
  "Routine_init = \<lparr>heap = [], labels = Map.empty, routine.index = Some 0, path = [], sequence = []\<rparr>"

text \<open>
  A Python reference always denotes an object; an address outside the heap denotes
  none, and the functions below say what they do there.
\<close>

definition heap_get :: "routine \<Rightarrow> addr \<Rightarrow> obj option" where
  "heap_get r a = (if a < length (heap r) then Some (heap r ! a) else None)"

definition heap_put :: "routine \<Rightarrow> addr \<Rightarrow> obj \<Rightarrow> routine" where
  "heap_put r a ob = r\<lparr>heap := (heap r)[a := ob]\<rparr>"

definition Routine_set :: "routine \<Rightarrow> addr list \<Rightarrow> routine" where
  "Routine_set r arr = r\<lparr>sequence := arr\<rparr>"

definition Routine_append :: "routine \<Rightarrow> addr \<Rightarrow> routine" where
  "Routine_append r a = r\<lparr>sequence := sequence r @ [a]\<rparr>"

subsection \<open>Evaluating a row\<close>

datatype pyclass = PointClass | LabelClass | JumpClass | SettingClass | CommandClass command_class

definition SYMBOLS :: "string \<rightharpoonup> pyclass" where
  "SYMBOLS = [''*'' \<mapsto> PointClass, ''@'' \<mapsto> LabelClass, ''>'' \<mapsto> JumpClass, ''$'' \<mapsto> SettingClass]"

text \<open>The class of a row: \<^verbatim>\<open>SYMBOLS\<close> first, then the command book.\<close>

definition find_class :: "env \<Rightarrow> string \<Rightarrow> pyclass option" where
  "find_class env first =
     (case SYMBOLS first of
        Some c \<Rightarrow> Some c
      | None \<Rightarrow> map_option CommandClass (command_book env first))"

definition name_of :: "pyclass \<Rightarrow> string" where
  "name_of c =
     (case c of
        PointClass \<Rightarrow> ''Point''
      | LabelClass \<Rightarrow> ''Label''
      | JumpClass \<Rightarrow> ''Jump''
      | SettingClass \<Rightarrow> ''Setting''
      | CommandClass k \<Rightarrow> class_name k)"

text \<open>\<^verbatim>\<open>c(*args, **kwargs)\<close> for the class \<open>c\<close>.\<close>

definition new_object :: "env \<Rightarrow> routine \<Rightarrow> pyclass \<Rightarrow> pyval list \<Rightarrow> kwargs \<Rightarrow> error + obj" where
  "new_object env r c args kw =
     (case c of
        PointClass \<Rightarrow>
          (case bind_args Point_params args kw of
             Inl e \<Rightarrow> Inl e
           | Inr b \<Rightarrow> map_sum id Point (Point_init env b))
      | LabelClass \<Rightarrow>
          (case bind_args Label_params args kw of
             Inl e \<Rightarrow> Inl e
           | Inr b \<Rightarrow> map_sum id Label (Label_init env (labels r) b))
      | JumpClass \<Rightarrow>
          (case bind_args Jump_params args kw of
             Inl e \<Rightarrow> Inl e
           | Inr b \<Rightarrow> map_sum id Jump (Jump_init env b))
      | SettingClass \<Rightarrow>
          (case bind_args Setting_params args kw of
             Inl e \<Rightarrow> Inl e
           | Inr b \<Rightarrow> map_sum id Setting (Setting_init env b))
      | CommandClass k \<Rightarrow> map_sum id Command (construct k args kw))"

text \<open>
  The tail of the \<^verbatim>\<open>try\<close> block of \<^verbatim>\<open>_eval\<close>: a Label takes the length of the sequence as
  its index and is entered in \<^verbatim>\<open>Routine.labels\<close>. The object gets the next free address,
  which is what \<^verbatim>\<open>_eval\<close> returns.
\<close>

definition register :: "routine \<Rightarrow> obj \<Rightarrow> routine \<times> addr" where
  "register r ob =
     (case ob of
        Label l \<Rightarrow>
          (r\<lparr>heap := heap r @ [Label (l\<lparr>label.index := Some (length (sequence r))\<rparr>)],
             labels := (labels r)(label.label l \<mapsto> length (heap r))\<rparr>,
           length (heap r))
      | _ \<Rightarrow> (r\<lparr>heap := heap r @ [ob]\<rparr>, length (heap r)))"

text \<open>
  \<^verbatim>\<open>Routine._eval(self, row, i)\<close>. The result is the address of the new object, or \<open>None\<close>
  where the code returns nothing. Only \<^verbatim>\<open>ValueError\<close> and \<^verbatim>\<open>TypeError\<close> are caught.
\<close>

definition Routine_eval ::
  "env \<Rightarrow> routine \<Rightarrow> string list \<Rightarrow> nat \<Rightarrow> error + (routine \<times> addr option \<times> event list)" where
  "Routine_eval env r row i =
     (case row of
        [] \<Rightarrow> Inr (r, None, [])
      | f # rest \<Rightarrow>
          (case find_class env (lower f) of
             None \<Rightarrow> Inr (r, None, [UnknownCommand i (lower f)])
           | Some c \<Rightarrow>
               (case new_object env r c (fst (separate_args rest)) (snd (separate_args rest)) of
                  Inl e \<Rightarrow>
                    if e = ValueError \<or> e = TypeError
                    then Inr (r, None, [InvalidArguments i (name_of c) e])
                    else Inl e
                | Inr ob \<Rightarrow> Inr (fst (register r ob), Some (snd (register r ob)), []))))"

subsection \<open>Compiling\<close>

definition add_command :: "routine \<Rightarrow> addr \<Rightarrow> command \<Rightarrow> routine" where
  "add_command r a c =
     (case heap_get r a of
        Some (Point p) \<Rightarrow> heap_put r a (Point (p\<lparr>commands := commands p @ [c]\<rparr>))
      | _ \<Rightarrow> r)"

text \<open>
  The body of the loop of \<^verbatim>\<open>Routine.compile\<close> for one result of \<^verbatim>\<open>_eval\<close>; \<open>cp\<close> is
  \<^verbatim>\<open>curr_point\<close>.
\<close>

definition place :: "routine \<Rightarrow> addr option \<Rightarrow> addr option \<Rightarrow> routine \<times> addr option" where
  "place r cp res =
     (case res of
        None \<Rightarrow> (r, cp)
      | Some a \<Rightarrow>
          (case heap_get r a of
             None \<Rightarrow> (r, cp)
           | Some (Command c) \<Rightarrow>
               (case cp of None \<Rightarrow> (r, cp) | Some pa \<Rightarrow> (add_command r pa c, cp))
           | Some (Point p) \<Rightarrow> (Routine_append r a, Some a)
           | Some _ \<Rightarrow> (Routine_append r a, cp)))"

fun compile_rows ::
  "env \<Rightarrow> string list list \<Rightarrow> routine \<Rightarrow> addr option \<Rightarrow> nat \<Rightarrow> error + (routine \<times> event list)" where
  "compile_rows env [] r cp line = Inr (r, [])"
| "compile_rows env (row # rows) r cp line =
     (case Routine_eval env r row line of
        Inl e \<Rightarrow> Inl e
      | Inr (r1, res, evs) \<Rightarrow>
          (case compile_rows env rows (fst (place r1 cp res)) (snd (place r1 cp res)) (line + 1) of
             Inl e \<Rightarrow> Inl e
           | Inr (r2, evs') \<Rightarrow> Inr (r2, evs @ evs')))"

text \<open>\<^verbatim>\<open>Routine.compile(self, file)\<close>; a file that cannot be opened is an \<^verbatim>\<open>OSError\<close>.\<close>

definition Routine_compile :: "env \<Rightarrow> routine \<Rightarrow> string \<Rightarrow> error + (routine \<times> event list)" where
  "Routine_compile env r file =
     (case files env file of
        None \<Rightarrow> Inl OSError
      | Some text \<Rightarrow>
          (case csv_reader text of
             Inl e \<Rightarrow> Inl e
           | Inr rows \<Rightarrow> compile_rows env rows (r\<lparr>labels := Map.empty\<rparr>) None 1))"

subsection \<open>Linking and loading\<close>

text \<open>\<^verbatim>\<open>Jump.bind\<close>, for the Jump at address \<open>a\<close>.\<close>

definition add_link :: "addr \<Rightarrow> obj \<Rightarrow> obj" where
  "add_link a ob = (case ob of Label l \<Rightarrow> Label (l\<lparr>links := insert a (links l)\<rparr>) | _ \<Rightarrow> ob)"

definition Jump_bind :: "routine \<Rightarrow> addr \<Rightarrow> routine \<times> bool" where
  "Jump_bind r a =
     (case heap_get r a of
        Some (Jump j) \<Rightarrow>
          (case labels r (jump.label j) of
             None \<Rightarrow> (r, False)
           | Some la \<Rightarrow>
               (r\<lparr>heap := (heap r)[a := Jump (j\<lparr>link := Some la\<rparr>),
                                    la := add_link a (heap r ! la)]\<rparr>, True))
      | _ \<Rightarrow> (r, False))"

text \<open>The loop of \<^verbatim>\<open>load\<close> that binds every Jump of the sequence.\<close>

definition bind_step :: "addr \<Rightarrow> routine \<Rightarrow> routine" where
  "bind_step a r = (case heap_get r a of Some (Jump j) \<Rightarrow> fst (Jump_bind r a) | _ \<Rightarrow> r)"

definition bind_jumps :: "routine \<Rightarrow> routine" where
  "bind_jumps r = fold bind_step (sequence r) r"

text \<open>
  \<^verbatim>\<open>os.path.splitext(file)[1]\<close>: the text from the last dot of the last path component,
  unless only dots stand before it.
\<close>

definition splitext_ext :: "env \<Rightarrow> string \<Rightarrow> string" where
  "splitext_ext env p =
     (let tail = rev (takeWhile (\<lambda>c. c \<notin> set (path_seps env)) (rev p));
          ext = rev (takeWhile (\<lambda>c. c \<noteq> CHR ''.'') (rev tail));
          stem = take (length tail - length ext - 1) tail
      in if CHR ''.'' \<in> set tail \<and> \<not> list_all (\<lambda>c. c = CHR ''.'') stem
         then CHR ''.'' # ext else [])"

text \<open>The part of \<^verbatim>\<open>load\<close> after the file name is settled.\<close>

definition load_file ::
  "env \<Rightarrow> routine \<Rightarrow> string \<Rightarrow> event list \<Rightarrow> error + (routine \<times> bool \<times> event list)" where
  "load_file env r file evs =
     (if splitext_ext env file \<noteq> ''.csv''
      then Inr (r, False, evs @ [UnsupportedExtension (splitext_ext env file)])
      else
        (case Routine_compile env ((Routine_set r [])\<lparr>routine.index := Some 0\<rparr>) file of
           Inl e \<Rightarrow> Inl e
         | Inr (r1, evs1) \<Rightarrow>
             Inr ((bind_jumps r1)\<lparr>path := file\<rparr>, True,
                  evs @ [SettingsReset] @ evs1 @ [Finished])))"

text \<open>
  \<^verbatim>\<open>Routine.load(self, file=None)\<close>. The first statements print the name of the routine
  with \<^verbatim>\<open>basename(file)\<close>, and \<^verbatim>\<open>os.path.basename(None)\<close> raises \<^verbatim>\<open>TypeError\<close>.
\<close>

definition Routine_load ::
  "env \<Rightarrow> routine \<Rightarrow> string option \<Rightarrow> error + (routine \<times> bool \<times> event list)" where
  "Routine_load env r file =
     (case file of
        None \<Rightarrow> Inl TypeError
      | Some f \<Rightarrow>
          if f = [] then
            (if path r \<noteq> [] then load_file env r (path r) [Loading, UsingPreviousPath]
             else Inr (r, False, [Loading, NoPathProvided]))
          else load_file env r f [Loading])"

section \<open>Execution\<close>

text \<open>
  Modelled from the spec: \<^verbatim>\<open>utils.run_if_enabled\<close> is not among the sources. A global
  switch gates every instruction's \<^verbatim>\<open>execute\<close> and every counter increment; when it is
  off the call does nothing. Here \<open>run\<close> is what the decorated method does and \<open>skipped\<close>
  what is left when it does not run.
\<close>

definition run_if_enabled :: "env \<Rightarrow> 'a \<Rightarrow> 'a \<Rightarrow> 'a" where
  "run_if_enabled env run skipped = (if enabled env then run else skipped)"

declare run_if_enabled_def [simp]

text \<open>\<^verbatim>\<open>Point._increment_counter\<close>; Python's \<^verbatim>\<open>%\<close> raises on a zero divisor.\<close>

definition Point_increment_counter :: "env \<Rightarrow> point \<Rightarrow> error + point" where
  "Point_increment_counter env p =
     run_if_enabled env
       (if point.frequency p = 0 then Inl ZeroDivisionError
        else Inr (p\<lparr>point.counter := (point.counter p + 1) mod point.frequency p\<rparr>))
       (Inr p)"

text \<open>\<^verbatim>\<open>Jump._increment_counter\<close>.\<close>

definition Jump_increment_counter :: "env \<Rightarrow> jump \<Rightarrow> error + jump" where
  "Jump_increment_counter env j =
     run_if_enabled env
       (if jump.frequency j = 0 then Inl ZeroDivisionError
        else Inr (j\<lparr>jump.counter := (jump.counter j + 1) mod jump.frequency j\<rparr>))
       (Inr j)"

text \<open>
  \<^verbatim>\<open>execute\<close> of an Action: what its \<^verbatim>\<open>main\<close> does belongs to the command book; the
  model records that it ran.
\<close>

definition Command_execute :: "env \<Rightarrow> command \<Rightarrow> event list" where
  "Command_execute env c = run_if_enabled env [Executed c] []"

text \<open>
  \<^verbatim>\<open>config.command_book.get(name)(*self.location).execute()\<close>: calling the \<^verbatim>\<open>None\<close> that
  \<^verbatim>\<open>get\<close> returns for a missing name raises \<^verbatim>\<open>TypeError\<close>.
\<close>

definition run_action :: "env \<Rightarrow> string \<Rightarrow> real \<times> real \<Rightarrow> error + event list" where
  "run_action env name loc =
     (case command_book env name of
        None \<Rightarrow> Inl TypeError
      | Some k \<Rightarrow>
          (case construct k [PFloat (fst loc), PFloat (snd loc)] [] of
             Inl e \<Rightarrow> Inl e
           | Inr c \<Rightarrow> Inr (Command_execute env c)))"

text \<open>The branch of \<^verbatim>\<open>Point.main\<close> under \<^verbatim>\<open>if self.counter == 0\<close>.\<close>

definition Point_fire :: "env \<Rightarrow> point \<Rightarrow> error + event list" where
  "Point_fire env p =
     (case run_action env ''move'' (location p) of
        Inl e \<Rightarrow> Inl e
      | Inr evs1 \<Rightarrow>
          (case (if adjust p then run_action env ''adjust'' (location p) else Inr []) of
             Inl e \<Rightarrow> Inl e
           | Inr evs2 \<Rightarrow> Inr (evs1 @ evs2 @ concat (map (Command_execute env) (commands p)))))"

text \<open>\<^verbatim>\<open>Point.main\<close>: the Point afterwards and the events of the call.\<close>

definition Point_main :: "env \<Rightarrow> point \<Rightarrow> error + (point \<times> event list)" where
  "Point_main env p =
     (case (if point.counter p = 0 then Point_fire env p else Inr []) of
        Inl e \<Rightarrow> Inl e
      | Inr evs \<Rightarrow>
          (case Point_increment_counter env p of
             Inl e \<Rightarrow> Inl e
           | Inr p' \<Rightarrow> Inr (p', evs)))"

text \<open>\<^verbatim>\<open>Component.execute\<close> on a Point.\<close>

definition Point_execute :: "env \<Rightarrow> point \<Rightarrow> error + (point \<times> event list)" where
  "Point_execute env p = run_if_enabled env (Point_main env p) (Inr (p, []))"

text \<open>
  \<^verbatim>\<open>Jump.main\<close>: reads the index of the Label at the address \<open>link\<close> from the heap of the
  routine and writes \<^verbatim>\<open>Routine.index\<close>.
\<close>

definition Jump_main :: "env \<Rightarrow> routine \<Rightarrow> jump \<Rightarrow> error + (routine \<times> jump \<times> event list)" where
  "Jump_main env r j =
     (case link j of
        None \<Rightarrow> Inr (r, j, [LabelMissing (jump.label j)])
      | Some a \<Rightarrow>
          (case (if jump.counter j = 0 then
                   (case heap_get r a of
                      Some (Label l) \<Rightarrow> Inr (r\<lparr>routine.index := label.index l\<rparr>)
                    | _ \<Rightarrow> Inl AttributeError)
                 else Inr r) of
             Inl e \<Rightarrow> Inl e
           | Inr r' \<Rightarrow>
               (case Jump_increment_counter env j of
                  Inl e \<Rightarrow> Inl e
                | Inr j' \<Rightarrow> Inr (r', j', []))))"

text \<open>\<^verbatim>\<open>Component.execute\<close> on a Jump.\<close>

definition Jump_execute :: "env \<Rightarrow> routine \<Rightarrow> jump \<Rightarrow> error + (routine \<times> jump \<times> event list)" where
  "Jump_execute env r j = run_if_enabled env (Jump_main env r j) (Inr (r, j, []))"

text \<open>\<^verbatim>\<open>Label.set_index\<close>, for the Label at address \<open>a\<close>.\<close>

definition Label_set_index :: "routine \<Rightarrow> addr \<Rightarrow> nat \<Rightarrow> routine" where
  "Label_set_index r a i =
     (case heap_get r a of
        Some (Label l) \<Rightarrow> heap_put r a (Label (l\<lparr>label.index := Some i\<rparr>))
      | _ \<Rightarrow> r)"

text \<open>
  \<^verbatim>\<open>execute()\<close> on the object at address \<open>a\<close>, as the stepper calls it on an element of the
  sequence; the object is written back to the heap.
\<close>

definition execute :: "env \<Rightarrow> routine \<Rightarrow> addr \<Rightarrow> error + (routine \<times> event list)" where
  "execute env r a =
     (case heap_get r a of
        None \<Rightarrow> Inl AttributeError
      | Some (Point p) \<Rightarrow>
          (case Point_execute env p of
             Inl e \<Rightarrow> Inl e
           | Inr (p', evs) \<Rightarrow> Inr (heap_put r a (Point p'), evs))
      | Some (Jump j) \<Rightarrow>
          (case Jump_execute env r j of
             Inl e \<Rightarrow> Inl e
           | Inr (r', j', evs) \<Rightarrow> Inr (heap_put r' a (Jump j'), evs))
      | Some (Label l) \<Rightarrow> Inr (r, [])
      | Some (Setting s) \<Rightarrow>
          Inr (r, run_if_enabled env [SettingWritten (key s) (setting_value s)] [])
      | Some (Command c) \<Rightarrow> Inr (r, Command_execute env c))"

subsection \<open>Repeated execution\<close>

text \<open>The stepper calling \<^verbatim>\<open>execute()\<close> on one Point \<open>n\<close> times: the events of each call.\<close>

fun Point_executes :: "env \<Rightarrow> nat \<Rightarrow> point \<Rightarrow> error + (point \<times> event list list)" where
  "Point_executes env 0 p = Inr (p, [])"
| "Point_executes env (Suc n) p =
     (case Point_execute env p of
        Inl e \<Rightarrow> Inl e
      | Inr (p', evs) \<Rightarrow>
          (case Point_executes env n p' of
             Inl e \<Rightarrow> Inl e
           | Inr (p'', evss) \<Rightarrow> Inr (p'', evs # evss)))"

text \<open>
  The same for a Jump, with the enabled flag as it stands at each call: one environment
  per call.
\<close>

fun Jump_executes ::
  "env list \<Rightarrow> routine \<Rightarrow> jump \<Rightarrow> error + (routine \<times> jump \<times> event list list)" where
  "Jump_executes [] r j = Inr (r, j, [])"
| "Jump_executes (env # envs) r j =
     (case Jump_execute env r j of
        Inl e \<Rightarrow> Inl e
      | Inr (r', j', evs) \<Rightarrow>
          (case Jump_executes envs r' j' of
             Inl e \<Rightarrow> Inl e
           | Inr (r'', j'', evss) \<Rightarrow> Inr (r'', j'', evs # evss)))"

text \<open>
  The states a Point goes through after its construction, by what this module does to
  a Point: \<^verbatim>\<open>compile\<close> appends a command, and \<^verbatim>\<open>execute()\<close> is called, any number of times
  and under any environment. A call that raises does so before the counter is touched
  and leaves the Point as it was.
\<close>

inductive Point_reachable :: "point \<Rightarrow> point \<Rightarrow> bool" for p0 :: point where
  Point_constructed: "Point_reachable p0 p0"
| Point_attached:
    "Point_reachable p0 p \<Longrightarrow> Point_reachable p0 (p\<lparr>commands := commands p @ [c]\<rparr>)"
| Point_executed:
    "Point_reachable p0 p \<Longrightarrow> Point_execute env p = Inr (p', evs) \<Longrightarrow> Point_reachable p0 p'"

text \<open>The same for a Jump: \<^verbatim>\<open>bind\<close> sets the link, and \<^verbatim>\<open>execute()\<close> is called.\<close>

inductive Jump_reachable :: "jump \<Rightarrow> jump \<Rightarrow> bool" for j0 :: jump where
  Jump_constructed: "Jump_reachable j0 j0"
| Jump_bound:
    "Jump_reachable j0 j \<Longrightarrow> Jump_reachable j0 (j\<lparr>link := Some la\<rparr>)"
| Jump_executed:
    "Jump_reachable j0 j \<Longrightarrow> Jump_execute env r j = Inr (r', j', evs) \<Longrightarrow> Jump_reachable j0 j'"

section \<open>A sample environment\<close>

text \<open>
  For the statements about concrete rows: a command book with the two Actions a Point
  calls, each taking the coordinates; floats read from integer text; one routine file
  with the four rows of the scenario.
\<close>

definition action_class :: "string \<Rightarrow> command_class" where
  "action_class name =
     \<lparr>class_name = name,
      construct = (\<lambda>args kw.
        case bind_args [(''x'', None), (''y'', None)] args kw of
          Inl e \<Rightarrow> Inl e
        | Inr b \<Rightarrow> Inr \<lparr>ident = name, init_args = b\<rparr>)\<rparr>"

definition sample_file :: string where
  "sample_file =
     ''*, 100, 200'' @ [CHR 0x0A] @ ''@, start'' @ [CHR 0x0A] @ ''>, start'' @ [CHR 0x0A] @
     ''*, 300, 400'' @ [CHR 0x0A]"

definition sample_env :: env where
  "sample_env =
     \<lparr>enabled = True,
      path_seps = ''/'',
      command_book = [''move'' \<mapsto> action_class ''Move'', ''adjust'' \<mapsto> action_class ''Adjust''],
      SETTING_VALIDATORS = Map.empty,
      files = [''sample.csv'' \<mapsto> sample_file],
      float_of_str = (\<lambda>s. map_sum id of_int (int_of_str s)),
      str_of_float = (\<lambda>f. str_int \<lfloor>f\<rfloor> @ ''.0'')\<rparr>"

text \<open>The same environment with an empty command book.\<close>

definition bare_env :: env where
  "bare_env = sample_env\<lparr>command_book := Map.empty\<rparr>"

text \<open>The Point the row \<^verbatim>\<open>*, 100, 200\<close> constructs.\<close>

definition sample_point :: point where
  "sample_point =
     \<lparr>ident = ''*'',
      init_args = [(''x'', PStr ''100''), (''y'', PStr ''200''), (''frequency'', PInt 1),
                   (''skip'', PStr ''False''), (''adjust'', PStr ''False'')],
      point_x = 100, point_y = 200, location = (100, 200),
      point.frequency = 1, point.counter = 0, adjust = False, commands = []\<rparr>"

text \<open>The other objects of the four rows, as the constructors leave them.\<close>

definition sample_label :: label where
  "sample_label =
     \<lparr>ident = ''@'', init_args = [(''label'', PStr ''start'')],
      label.label = ''start'', links = {}, label.index = None\<rparr>"

definition sample_jump :: jump where
  "sample_jump =
     \<lparr>ident = ''>'',
      init_args = [(''label'', PStr ''start''), (''frequency'', PInt 1), (''skip'', PStr ''False'')],
      jump.label = ''start'', jump.frequency = 1, jump.counter = 0, link = None\<rparr>"

definition sample_point2 :: point where
  "sample_point2 =
     \<lparr>ident = ''*'',
      init_args = [(''x'', PStr ''300''), (''y'', PStr ''400''), (''frequency'', PInt 1),
                   (''skip'', PStr ''False''), (''adjust'', PStr ''False'')],
      point_x = 300, point_y = 400, location = (300, 400),
      point.frequency = 1, point.counter = 0, adjust = False, commands = []\<rparr>"

text \<open>The routine after compiling the four rows, and after the linking pass.\<close>

definition compiled_routine :: routine where
  "compiled_routine =
     \<lparr>heap = [Point sample_point, Label (sample_label\<lparr>label.index := Some 1\<rparr>),
              Jump sample_jump, Point sample_point2],
      labels = [''start'' \<mapsto> 1], routine.index = Some 0, path = [], sequence = [0, 1, 2, 3]\<rparr>"

definition linked_routine :: routine where
  "linked_routine =
     \<lparr>heap = [Point sample_point, Label (sample_label\<lparr>label.index := Some 1, links := {2}\<rparr>),
              Jump (sample_jump\<lparr>link := Some 1\<rparr>), Point sample_point2],
      labels = [''start'' \<mapsto> 1], routine.index = Some 0, path = [], sequence = [0, 1, 2, 3]\<rparr>"

text \<open>The routine after the first of the four rows.\<close>

definition one_point_routine :: routine where
  "one_point_routine =
     \<lparr>heap = [Point sample_point], labels = Map.empty, routine.index = Some 0, path = [],
      sequence = [0]\<rparr>"

text \<open>The Jump of the row \<^verbatim>\<open>>, nowhere, 2\<close>, which no Label of the sample answers.\<close>

definition unbound_jump :: jump where
  "unbound_jump =
     \<lparr>ident = ''>'',
      init_args = [(''label'', PStr ''nowhere''), (''frequency'', PStr ''2''),
                   (''skip'', PStr ''False'')],
      jump.label = ''nowhere'', jump.frequency = 2, jump.counter = 0, link = None\<rparr>"

text \<open>
  The Point of the row \<^verbatim>\<open>*, 100, 200, frequency=3, adjust=True\<close>, the two Actions it
  constructs when it fires, and an Action attached to it.
\<close>

definition periodic_args :: kwargs where
  "periodic_args =
     [(''x'', PStr ''100''), (''y'', PStr ''200''), (''frequency'', PStr ''3''),
      (''skip'', PStr ''False''), (''adjust'', PStr ''True'')]"

definition periodic_point :: point where
  "periodic_point =
     \<lparr>ident = ''*'', init_args = periodic_args,
      point_x = 100, point_y = 200, location = (100, 200),
      point.frequency = 3, point.counter = 0, adjust = True, commands = []\<rparr>"

definition move_there :: command where
  "move_there = \<lparr>ident = ''Move'', init_args = [(''x'', PFloat 100), (''y'', PFloat 200)]\<rparr>"

definition adjust_there :: command where
  "adjust_there = \<lparr>ident = ''Adjust'', init_args = [(''x'', PFloat 100), (''y'', PFloat 200)]\<rparr>"

definition attached :: command where
  "attached = \<lparr>ident = ''Wait'', init_args = [(''duration'', PStr ''1'')]\<rparr>"

text \<open>The Jump of the row \<^verbatim>\<open>>, start, skip=True\<close>.\<close>

definition skipping_args :: kwargs where
  "skipping_args = [(''label'', PStr ''start''), (''frequency'', PInt 1), (''skip'', PStr ''True'')]"

definition skipping_jump :: jump where
  "skipping_jump =
     \<lparr>ident = ''>'', init_args = skipping_args,
      jump.label = ''start'', jump.frequency = 1, jump.counter = 1, link = None\<rparr>"

section \<open>Notions for the round trip\<close>

text \<open>Text without a comma and without a line break.\<close>

definition plain :: "string \<Rightarrow> bool" where
  "plain s = list_all (\<lambda>c. c \<noteq> CHR '','' \<and> \<not> is_eol c) s"

text \<open>
  A value that \<^verbatim>\<open>separate_args\<close> made from a plain field: trimmed plain text. The values
  a constructor of this module receives from a row are these and the default \<open>PInt 1\<close>.
\<close>

definition row_text :: "string \<Rightarrow> bool" where
  "row_text t = (strip t = t \<and> plain t)"

fun from_row :: "pyval \<Rightarrow> bool" where
  "from_row (PStr t) = row_text t"
| "from_row _ = False"

definition arg_ok :: "pyval \<Rightarrow> bool" where
  "arg_ok v = (from_row v \<or> v = PInt 1)"

text \<open>A parameter name: it starts and ends with no blank and no quote, and has no \<^verbatim>\<open>=\<close>.\<close>

definition key_ok :: "string \<Rightarrow> bool" where
  "key_ok k =
     (k \<noteq> [] \<and> \<not> is_space (hd k) \<and> \<not> is_space (last k) \<and> hd k \<noteq> CHR 0x22 \<and>
      plain k \<and> CHR ''='' \<notin> set k \<and> k \<noteq> ''id'')"

text \<open>A field that the reader takes as it stands when fields are joined by comma and space.\<close>

definition field_ok :: "string \<Rightarrow> bool" where
  "field_ok fd =
     (fd \<noteq> [] \<and> hd fd \<noteq> CHR '' '' \<and> hd fd \<noteq> CHR 0x22 \<and> plain fd)"

text \<open>
  The captured arguments as the encoding shows them, and an object with its captured
  arguments replaced by that text: what parsing the encoding can give back at best.
\<close>

definition as_text :: "env \<Rightarrow> kwargs \<Rightarrow> kwargs" where
  "as_text env b = map (\<lambda>kv. (fst kv, PStr (py_str env (snd kv)))) b"

definition reparsed :: "env \<Rightarrow> obj \<Rightarrow> obj" where
  "reparsed env ob =
     (case ob of
        Point p \<Rightarrow> Point (p\<lparr>init_args := as_text env (init_args p)\<rparr>)
      | Label l \<Rightarrow> Label (l\<lparr>init_args := as_text env (init_args l)\<rparr>)
      | Jump j \<Rightarrow> Jump (j\<lparr>init_args := as_text env (init_args j)\<rparr>)
      | Setting s \<Rightarrow> Setting (s\<lparr>init_args := as_text env (init_args s)\<rparr>)
      | Command c \<Rightarrow> Command (c\<lparr>init_args := as_text env (init_args c)\<rparr>))"

text \<open>
  A captured argument that the encoding writes, as text that a row can hold: of a
  primitive type, and trimmed plain text when printed.
\<close>

definition text_ok :: "env \<Rightarrow> pyval \<Rightarrow> bool" where
  "text_ok env v = (is_primitive v \<and> row_text (py_str env v))"

text \<open>
  An object with the index \<^verbatim>\<open>_eval\<close> gives it when it is a Label; the index is no
  constructor argument and the encoding does not show it.
\<close>

fun reindexed :: "nat \<Rightarrow> obj \<Rightarrow> obj" where
  "reindexed n (Label l) = Label (l\<lparr>label.index := Some n\<rparr>)"
| "reindexed n ob = ob"

text \<open>
  What the round trip of an Action needs from the command book, which this module
  does not define: the id of the Action (its class name) in lower case finds a class
  there, the id and the captured arguments are text a row can hold under names that
  can be keywords, and that class, called with the captured arguments as keyword text,
  constructs the same Action. The four classes of this module need no condition.
\<close>

definition rebuilds_command :: "env \<Rightarrow> command \<Rightarrow> bool" where
  "rebuilds_command env c =
     (case find_class env (lower (ident c)) of
        Some (CommandClass k) \<Rightarrow>
          field_ok (ident c) \<and> distinct (map fst (init_args c)) \<and>
          list_all (\<lambda>kv. key_ok (fst kv) \<and> text_ok env (snd kv)) (init_args c) \<and>
          construct k [] (as_text env (init_args c)) =
            Inr (c\<lparr>init_args := as_text env (init_args c)\<rparr>)
      | _ \<Rightarrow> False)"

fun rebuilds :: "env \<Rightarrow> obj \<Rightarrow> bool" where
  "rebuilds env (Command c) = rebuilds_command env c"
| "rebuilds env ob = True"

text \<open>The name of a Label is free in the label table of the routine (true of other objects).\<close>

fun unregistered :: "routine \<Rightarrow> obj \<Rightarrow> bool" where
  "unregistered r (Label l) = (labels r (label.label l) = None)"
| "unregistered r _ = True"

text \<open>The empty row that the line break before an encoded Label reads as.\<close>

fun blank_rows :: "obj \<Rightarrow> string list list" where
  "blank_rows (Label l) = [[]]"
| "blank_rows _ = []"

text \<open>The Label of the row \<^verbatim>\<open>@, "a,b"\<close>, whose one field after the first is \<^verbatim>\<open>a,b\<close>.\<close>

definition comma_label :: label where
  "comma_label =
     \<lparr>ident = ''@'', init_args = [(''label'', PStr ''a,b'')],
      label.label = ''a,b'', links = {}, label.index = Some 0\<rparr>"

text \<open>The Action of the row \<^verbatim>\<open>move, 1, 2\<close> in the sample command book.\<close>

definition sample_action :: command where
  "sample_action = \<lparr>ident = ''Move'', init_args = [(''x'', PStr ''1''), (''y'', PStr ''2'')]\<rparr>"

text \<open>
  An Action class that leaves \<^verbatim>\<open>args\<close> of \<^verbatim>\<open>Command.__init__\<close> at its default \<^verbatim>\<open>None\<close>: it
  takes one argument and captures nothing. The environment has it as \<^verbatim>\<open>wait\<close>.
\<close>

definition forgetful_class :: command_class where
  "forgetful_class =
     \<lparr>class_name = ''Wait'',
      construct = (\<lambda>args kw.
        case bind_args [(''duration'', None)] args kw of
          Inl e \<Rightarrow> Inl e
        | Inr b \<Rightarrow> Inr \<lparr>ident = ''Wait'', init_args = []\<rparr>)\<rparr>"

definition forgetful_env :: env where
  "forgetful_env = sample_env\<lparr>command_book := [''wait'' \<mapsto> forgetful_class]\<rparr>"

definition forgetful_action :: command where
  "forgetful_action = \<lparr>ident = ''Wait'', init_args = []\<rparr>"

section \<open>Missing registry entries (C10)\<close>

lemma run_action_missing:
  "command_book env name = None \<Longrightarrow> run_action env name loc = Inl TypeError"
  by (simp add: run_action_def)

lemma Point_fire_returns:
  assumes "Point_fire env p = Inr evs"
  shows "command_book env ''move'' \<noteq> None \<and> (adjust p \<longrightarrow> command_book env ''adjust'' \<noteq> None)"
  using assms
  by (auto simp: Point_fire_def run_action_def split: sum.splits option.splits if_splits)

text \<open>
  C10. A firing Point (counter 0, enabled) calls what \<^verbatim>\<open>command_book.get\<close> returns
  without a check. If \<^verbatim>\<open>move\<close> is missing the execution raises \<^verbatim>\<open>TypeError\<close>: no event, no
  result. If the adjust flag is set and \<^verbatim>\<open>adjust\<close> is missing it raises as well. So the
  execution returns only if the entries it looks up exist.
\<close>

theorem Point_execute_needs_registry:
  assumes "enabled env" and "point.counter p = 0"
  shows "(command_book env ''move'' = None \<longrightarrow> Point_execute env p = Inl TypeError) \<and>
         (adjust p \<and> command_book env ''adjust'' = None \<longrightarrow> isl (Point_execute env p)) \<and>
         (\<not> isl (Point_execute env p) \<longrightarrow>
            command_book env ''move'' \<noteq> None \<and>
            (adjust p \<longrightarrow> command_book env ''adjust'' \<noteq> None))"
proof -
  have main: "Point_execute env p =
      (case Point_fire env p of
         Inl e \<Rightarrow> Inl e
       | Inr evs \<Rightarrow>
           (case Point_increment_counter env p of Inl e \<Rightarrow> Inl e | Inr p' \<Rightarrow> Inr (p', evs)))"
    using assms by (simp add: Point_execute_def Point_main_def)
  have a: "command_book env ''move'' = None \<longrightarrow> Point_execute env p = Inl TypeError"
    by (simp add: main Point_fire_def run_action_missing)
  have c: "\<not> isl (Point_execute env p) \<longrightarrow>
            command_book env ''move'' \<noteq> None \<and>
            (adjust p \<longrightarrow> command_book env ''adjust'' \<noteq> None)"
  proof
    assume "\<not> isl (Point_execute env p)"
    then obtain evs where "Point_fire env p = Inr evs"
      by (auto simp: main split: sum.splits)
    then show "command_book env ''move'' \<noteq> None \<and>
               (adjust p \<longrightarrow> command_book env ''adjust'' \<noteq> None)"
      by (rule Point_fire_returns)
  qed
  have b: "adjust p \<and> command_book env ''adjust'' = None \<longrightarrow> isl (Point_execute env p)"
    using c by blast
  from a b c show ?thesis by blast
qed

theorem Point_execute_needs_registry_witness:
  "Point_execute bare_env sample_point = Inl TypeError \<and>
   \<not> isl (Point_execute sample_env sample_point) \<and>
   command_book sample_env ''move'' \<noteq> None"
proof -
  have e1: "enabled bare_env" and e2: "enabled sample_env"
    by (simp_all add: sample_env_def bare_env_def)
  have c: "point.counter sample_point = 0"
    by (simp add: sample_point_def)
  have m: "command_book bare_env ''move'' = None"
    by (simp add: sample_env_def bare_env_def)
  have r: "\<not> isl (Point_execute sample_env sample_point)"
    by (simp add: Point_execute_def Point_main_def Point_fire_def run_action_def
        Point_increment_counter_def Command_execute_def sample_env_def sample_point_def
        action_class_def bind_args_def)
  from Point_execute_needs_registry [OF e1 c] Point_execute_needs_registry [OF e2 c] m r
  show ?thesis by blast
qed


section \<open>Jumps without a Label (C8)\<close>

lemma Jump_execute_unbound:
  "link j = None \<Longrightarrow>
   Jump_execute env r j = Inr (r, j, if enabled env then [LabelMissing (jump.label j)] else [])"
  by (simp add: Jump_execute_def Jump_main_def)

text \<open>
  C8. A Jump whose link is null never changes the program counter, however often it is
  executed: every call returns the routine and the Jump as they were, and an enabled
  call prints the diagnostic and nothing else.
\<close>

theorem unbound_Jump_never_transfers:
  assumes "link j = None"
  shows "Jump_executes envs r j =
           Inr (r, j, map (\<lambda>env. if enabled env then [LabelMissing (jump.label j)] else []) envs)"
  using assms
  by (induction envs) (simp_all add: Jump_execute_unbound)

theorem unbound_Jump_never_transfers_witness:
  "Jump_executes [sample_env, sample_env\<lparr>enabled := False\<rparr>, sample_env] compiled_routine unbound_jump =
     Inr (compiled_routine, unbound_jump,
          [[LabelMissing ''nowhere''], [], [LabelMissing ''nowhere'']])"
proof -
  have l: "link unbound_jump = None"
    by (simp add: unbound_jump_def)
  show ?thesis
    using unbound_Jump_never_transfers [OF l, of "[sample_env, sample_env\<lparr>enabled := False\<rparr>, sample_env]" compiled_routine]
    by (simp add: sample_env_def unbound_jump_def)
qed

section \<open>Loading without a file path (C1)\<close>

text \<open>
  C1. Called without a file path (\<^verbatim>\<open>file=None\<close>, the default), \<^verbatim>\<open>load\<close> raises \<^verbatim>\<open>TypeError\<close>
  in its first \<^verbatim>\<open>print\<close>, before the test that was to reject the request and return
  \<^verbatim>\<open>False\<close>; this holds whether or not a path was cached.
\<close>

theorem load_without_file_raises:
  "Routine_load env r None = Inl TypeError"
  by (simp add: Routine_load_def)

text \<open>With the empty text as the path and nothing cached, the rejection is reached.\<close>

lemma load_empty_path_rejected:
  "path r = [] \<Longrightarrow> Routine_load env r (Some []) = Inr (r, False, [Loading, NoPathProvided])"
  by (simp add: Routine_load_def)

section \<open>The counter of a Jump (C3)\<close>

text \<open>
  Against C3 as stated: an enabled execution of a Jump with a null link leaves the
  counter at 0, where \<open>(counter + 1) mod frequency\<close> is 1.
\<close>

theorem unbound_Jump_counter_counterexample:
  "Jump_execute sample_env compiled_routine unbound_jump =
     Inr (compiled_routine, unbound_jump, [LabelMissing ''nowhere'']) \<and>
   enabled sample_env \<and>
   jump.counter unbound_jump \<noteq> (jump.counter unbound_jump + 1) mod jump.frequency unbound_jump"
  by (simp add: Jump_execute_def Jump_main_def sample_env_def unbound_jump_def)

text \<open>
  C3, amended. An enabled execution of a Jump whose link is resolved advances the
  counter to \<open>(counter + 1) mod frequency\<close>, whether or not it fires; an enabled
  execution of a Jump whose link is null prints the diagnostic and leaves the counter
  as it was.
\<close>

theorem bound_Jump_counter_advances:
  assumes "enabled env" and "jump.frequency j \<noteq> 0"
  shows "(link j = Some a \<and> heap_get r a = Some (Label l) \<longrightarrow>
            Jump_execute env r j =
              Inr (if jump.counter j = 0 then r\<lparr>routine.index := label.index l\<rparr> else r,
                   j\<lparr>jump.counter := (jump.counter j + 1) mod jump.frequency j\<rparr>, [])) \<and>
         (link j = None \<longrightarrow>
            Jump_execute env r j = Inr (r, j, [LabelMissing (jump.label j)]))"
  using assms
  by (simp add: Jump_execute_def Jump_main_def Jump_increment_counter_def)

theorem bound_Jump_counter_advances_witness:
  "Jump_execute sample_env linked_routine (sample_jump\<lparr>link := Some 1, jump.frequency := 3\<rparr>) =
     Inr (linked_routine\<lparr>routine.index := Some 1\<rparr>,
          sample_jump\<lparr>link := Some 1, jump.frequency := 3, jump.counter := 1\<rparr>, []) \<and>
   Jump_execute sample_env linked_routine (sample_jump\<lparr>link := Some 1, jump.frequency := 3, jump.counter := 2\<rparr>) =
     Inr (linked_routine,
          sample_jump\<lparr>link := Some 1, jump.frequency := 3, jump.counter := 0\<rparr>, []) \<and>
   Jump_execute sample_env linked_routine unbound_jump =
     Inr (linked_routine, unbound_jump, [LabelMissing ''nowhere''])"
proof -
  have e: "enabled sample_env" by (simp add: sample_env_def)
  have f: "jump.frequency (sample_jump\<lparr>link := Some 1, jump.frequency := 3\<rparr>) \<noteq> 0"
          "jump.frequency (sample_jump\<lparr>link := Some 1, jump.frequency := 3, jump.counter := 2\<rparr>) \<noteq> 0"
          "jump.frequency unbound_jump \<noteq> 0"
    by (simp_all add: unbound_jump_def)
  have h: "heap_get linked_routine 1 = Some (Label (sample_label\<lparr>label.index := Some 1, links := {2}\<rparr>))"
    by (simp add: heap_get_def linked_routine_def)
  show ?thesis
    using bound_Jump_counter_advances [OF e f(1), of 1 linked_routine "sample_label\<lparr>label.index := Some 1, links := {2}\<rparr>"]
      bound_Jump_counter_advances [OF e f(2), of 1 linked_routine "sample_label\<lparr>label.index := Some 1, links := {2}\<rparr>"]
      bound_Jump_counter_advances [OF e f(3), of 1 linked_routine "sample_label"]
      h
    by (simp add: sample_jump_def unbound_jump_def)
qed


section \<open>A bound Jump reads the index of its Label (C7)\<close>

lemma heap_get_Some_length: "heap_get r a = Some ob \<Longrightarrow> a < length (heap r) \<and> heap r ! a = ob"
  by (simp add: heap_get_def split: if_splits)

lemma Jump_bind_bound:
  assumes "heap_get r ja = Some (Jump j)" and "labels r (jump.label j) = Some la"
    and "heap_get r la = Some (Label l)"
  shows "heap_get (fst (Jump_bind r ja)) ja = Some (Jump (j\<lparr>link := Some la\<rparr>))"
    and "heap_get (fst (Jump_bind r ja)) la = Some (Label (l\<lparr>links := insert ja (links l)\<rparr>))"
    and "snd (Jump_bind r ja)"
proof -
  from assms have len: "ja < length (heap r)" "la < length (heap r)"
    and at: "heap r ! ja = Jump j" "heap r ! la = Label l"
    by (auto dest: heap_get_Some_length)
  then have ne: "ja \<noteq> la" by auto
  show "heap_get (fst (Jump_bind r ja)) ja = Some (Jump (j\<lparr>link := Some la\<rparr>))"
    using assms len ne by (simp add: Jump_bind_def heap_get_def)
  show "heap_get (fst (Jump_bind r ja)) la = Some (Label (l\<lparr>links := insert ja (links l)\<rparr>))"
    using assms len ne at by (simp add: Jump_bind_def heap_get_def add_link_def)
  show "snd (Jump_bind r ja)"
    using assms by (simp add: Jump_bind_def)
qed

lemma execute_firing_Jump:
  assumes "enabled env" and "heap_get r ja = Some (Jump j)" and "jump.counter j = 0"
    and "jump.frequency j \<noteq> 0" and "link j = Some la" and "heap_get r la = Some (Label l)"
  shows "\<exists>r'. execute env r ja = Inr (r', []) \<and> routine.index r' = label.index l"
  using assms
  by (simp add: execute_def Jump_execute_def Jump_main_def Jump_increment_counter_def heap_put_def)

text \<open>
  C7. A Jump bound by \<^verbatim>\<open>bind\<close> holds the address of its Label, and a firing execution
  copies the index found there at that moment into the program counter: after
  \<^verbatim>\<open>set_index\<close> gave the Label another index, the next firing transfers to the new one.
\<close>

theorem bound_Jump_reads_current_index:
  assumes "enabled env"
    and "heap_get r ja = Some (Jump j)" and "jump.counter j = 0" and "jump.frequency j \<noteq> 0"
    and "labels r (jump.label j) = Some la" and "heap_get r la = Some (Label l)"
  shows "(\<exists>r'. execute env (fst (Jump_bind r ja)) ja = Inr (r', []) \<and>
               routine.index r' = label.index l) \<and>
         (\<exists>r'. execute env (Label_set_index (fst (Jump_bind r ja)) la i) ja = Inr (r', []) \<and>
               routine.index r' = Some i)"
proof -
  let ?r1 = "fst (Jump_bind r ja)"
  let ?j1 = "j\<lparr>link := Some la\<rparr>"
  let ?l1 = "l\<lparr>links := insert ja (links l)\<rparr>"
  have j1: "heap_get ?r1 ja = Some (Jump ?j1)" and l1: "heap_get ?r1 la = Some (Label ?l1)"
    using assms(2,5,6) by (rule Jump_bind_bound)+
  have ne: "ja \<noteq> la"
    using j1 l1 by auto
  have first: "\<exists>r'. execute env ?r1 ja = Inr (r', []) \<and> routine.index r' = label.index ?l1"
    using assms(1) j1 _ _ _ l1 by (rule execute_firing_Jump) (simp_all add: assms)
  let ?r2 = "Label_set_index ?r1 la i"
  have r2: "?r2 = heap_put ?r1 la (Label (?l1\<lparr>label.index := Some i\<rparr>))"
    using l1 by (simp add: Label_set_index_def)
  have j2: "heap_get ?r2 ja = Some (Jump ?j1)"
    using j1 ne by (simp add: r2 heap_put_def heap_get_def split: if_splits)
  have l2: "heap_get ?r2 la = Some (Label (?l1\<lparr>label.index := Some i\<rparr>))"
    using l1 by (simp add: r2 heap_put_def heap_get_def split: if_splits)
  have second: "\<exists>r'. execute env ?r2 ja = Inr (r', []) \<and>
                  routine.index r' = label.index (?l1\<lparr>label.index := Some i\<rparr>)"
    using assms(1) j2 _ _ _ l2 by (rule execute_firing_Jump) (simp_all add: assms)
  from first second show ?thesis by simp
qed

theorem bound_Jump_reads_current_index_witness:
  "(\<exists>r'. execute sample_env (fst (Jump_bind compiled_routine 2)) 2 = Inr (r', []) \<and>
         routine.index r' = Some 1) \<and>
   (\<exists>r'. execute sample_env (Label_set_index (fst (Jump_bind compiled_routine 2)) 1 7) 2 = Inr (r', []) \<and>
         routine.index r' = Some 7)"
proof -
  have e: "enabled sample_env" by (simp add: sample_env_def)
  have j: "heap_get compiled_routine 2 = Some (Jump sample_jump)"
    by (simp add: heap_get_def compiled_routine_def)
  have c: "jump.counter sample_jump = 0" and f: "jump.frequency sample_jump \<noteq> 0"
    by (simp_all add: sample_jump_def)
  have t: "labels compiled_routine (jump.label sample_jump) = Some 1"
    by (simp add: compiled_routine_def sample_jump_def)
  have l: "heap_get compiled_routine 1 = Some (Label (sample_label\<lparr>label.index := Some 1\<rparr>))"
    by (simp add: heap_get_def compiled_routine_def)
  show ?thesis
    using bound_Jump_reads_current_index [OF e j c f t l, of 7] by simp
qed


section \<open>The firing schedule of a Waypoint (C4)\<close>

lemma validate_nonzero_int_positive: "validate_nonzero_int v = Inr f \<Longrightarrow> 1 \<le> f"
  by (auto simp: validate_nonzero_int_def split: sum.splits if_splits)

lemma Point_init_fields:
  assumes "Point_init env b = Inr p"
  shows "1 \<le> point.frequency p"
    and "point.counter p = (if validate_boolean (arg b ''skip'') = Inr True then 1 else 0)"
    and "commands p = []"
  using assms
  by (auto simp: Point_init_def split: sum.splits dest: validate_nonzero_int_positive)

lemma Point_fire_events:
  assumes "command_book env ''move'' = Some km"
    and "construct km [PFloat (fst (location p)), PFloat (snd (location p))] [] = Inr m"
    and "adjust p \<longrightarrow> command_book env ''adjust'' = Some ka \<and>
         construct ka [PFloat (fst (location p)), PFloat (snd (location p))] [] = Inr ad"
    and "enabled env"
  shows "Point_fire env p =
           Inr ([Executed m] @ (if adjust p then [Executed ad] else []) @ map Executed (commands p))"
proof -
  have "concat (map (Command_execute env) cs) = map Executed cs" for cs
    using assms(4) by (induction cs) (simp_all add: Command_execute_def)
  then show ?thesis
    using assms by (simp add: Point_fire_def run_action_def Command_execute_def)
qed

lemma Point_fire_counter: "Point_fire env (p\<lparr>point.counter := c\<rparr>) = Point_fire env p"
  by (simp add: Point_fire_def split: sum.splits)

lemma upt_0_Suc: "[0..<Suc n] = 0 # map Suc [0..<n]"
  by (simp add: map_Suc_upt upt_conv_Cons del: upt_Suc)

lemma Point_executes_schedule:
  assumes "enabled env" and "Point_fire env p = Inr fevs" and "1 \<le> point.frequency p"
    and "0 \<le> point.counter p" and "point.counter p < point.frequency p"
  shows "Point_executes env n p =
           Inr (p\<lparr>point.counter := (point.counter p + int n) mod point.frequency p\<rparr>,
                map (\<lambda>k. if (point.counter p + int k) mod point.frequency p = 0 then fevs else [])
                  [0..<n])"
  using assms
proof (induction n arbitrary: p)
  case 0
  then show ?case by simp
next
  case (Suc n)
  let ?p' = "p\<lparr>point.counter := (point.counter p + 1) mod point.frequency p\<rparr>"
  have step: "Point_execute env p = Inr (?p', if point.counter p = 0 then fevs else [])"
    using Suc.prems
    by (simp add: Point_execute_def Point_main_def Point_increment_counter_def)
  have fire: "Point_fire env ?p' = Inr fevs"
    using Suc.prems by (simp add: Point_fire_counter)
  have rest: "Point_executes env n ?p' =
      Inr (?p'\<lparr>point.counter := (point.counter ?p' + int n) mod point.frequency ?p'\<rparr>,
           map (\<lambda>k. if (point.counter ?p' + int k) mod point.frequency ?p' = 0 then fevs else [])
             [0..<n])"
    using Suc.prems by (intro Suc.IH fire) simp_all
  have shift: "((point.counter p + 1) mod point.frequency p + int k) mod point.frequency p =
               (point.counter p + int (Suc k)) mod point.frequency p" for k
  proof -
    have "((point.counter p + 1) mod point.frequency p + int k) mod point.frequency p =
          (point.counter p + 1 + int k) mod point.frequency p"
      by (rule mod_add_left_eq)
    then show ?thesis by (simp add: algebra_simps)
  qed
  have zero: "point.counter p mod point.frequency p = point.counter p"
    using Suc.prems by simp
  show ?case
    unfolding Point_executes.simps step upt_0_Suc
    using rest by (simp add: shift zero del: upt_Suc)
qed

text \<open>
  C4. A Point constructed with skip false and frequency \<open>N\<close>, with any Actions \<open>cs\<close>
  attached, executed \<open>n\<close> times while enabled: call number \<open>k + 1\<close> fires exactly when
  \<open>N\<close> divides \<open>k\<close>, that is on calls 1, \<open>N + 1\<close>, \<open>2N + 1\<close>, ...; a firing call runs the
  move Action, the adjust Action when the flag is set, and the attached Actions in
  their order; every other call has no event. After \<open>n\<close> calls only the counter differs,
  and it is \<open>n mod N\<close>. The registry entries the Point calls are assumed to exist (C10).
\<close>

theorem Waypoint_fires_every_Nth:
  assumes "enabled env"
    and "Point_init env b = Inr p0" and "validate_boolean (arg b ''skip'') = Inr False"
    and "command_book env ''move'' = Some km"
    and "construct km [PFloat (fst (location p0)), PFloat (snd (location p0))] [] = Inr m"
    and "adjust p0 \<longrightarrow> command_book env ''adjust'' = Some ka \<and>
         construct ka [PFloat (fst (location p0)), PFloat (snd (location p0))] [] = Inr ad"
  shows "Point_executes env n (p0\<lparr>commands := cs\<rparr>) =
           Inr (p0\<lparr>commands := cs, point.counter := int n mod point.frequency p0\<rparr>,
                map (\<lambda>k. if int k mod point.frequency p0 = 0
                          then [Executed m] @ (if adjust p0 then [Executed ad] else []) @
                               map Executed cs
                          else [])
                  [0..<n])"
proof -
  let ?p = "p0\<lparr>commands := cs\<rparr>"
  have f: "1 \<le> point.frequency ?p" and c: "point.counter ?p = 0"
    using Point_init_fields(1,2) [OF assms(2)] assms(3) by simp_all
  have fire: "Point_fire env ?p =
      Inr ([Executed m] @ (if adjust ?p then [Executed ad] else []) @ map Executed (commands ?p))"
    using assms(4-6) assms(1) by (intro Point_fire_events) auto
  have "Point_executes env n ?p =
      Inr (?p\<lparr>point.counter := (point.counter ?p + int n) mod point.frequency ?p\<rparr>,
           map (\<lambda>k. if (point.counter ?p + int k) mod point.frequency ?p = 0
                     then [Executed m] @ (if adjust ?p then [Executed ad] else []) @
                          map Executed (commands ?p)
                     else [])
             [0..<n])"
    using f c by (intro Point_executes_schedule [OF assms(1) fire]) simp_all
  then show ?thesis by (simp add: c)
qed


theorem Waypoint_fires_every_Nth_witness:
  "Point_executes sample_env 4 (periodic_point\<lparr>commands := [attached]\<rparr>) =
     Inr (periodic_point\<lparr>commands := [attached], point.counter := 1\<rparr>,
          [[Executed move_there, Executed adjust_there, Executed attached], [], [],
           [Executed move_there, Executed adjust_there, Executed attached]])"
proof -
  have e: "enabled sample_env" by (simp add: sample_env_def)
  have i: "Point_init sample_env periodic_args = Inr periodic_point"
    by (simp add: Point_init_def periodic_args_def periodic_point_def arg_def py_float_def
        sample_env_def int_of_str_def is_digit_def digits_value_def validate_nonzero_int_def
        validate_boolean_def)
  have s: "validate_boolean (arg periodic_args ''skip'') = Inr False"
    by (simp add: periodic_args_def arg_def validate_boolean_def)
  have m: "command_book sample_env ''move'' = Some (action_class ''Move'')"
    and a: "command_book sample_env ''adjust'' = Some (action_class ''Adjust'')"
    by (simp_all add: sample_env_def)
  have cm: "construct (action_class ''Move'')
              [PFloat (fst (location periodic_point)), PFloat (snd (location periodic_point))] [] =
            Inr move_there"
    by (simp add: action_class_def bind_args_def periodic_point_def move_there_def)
  have ca: "adjust periodic_point \<longrightarrow>
            command_book sample_env ''adjust'' = Some (action_class ''Adjust'') \<and>
            construct (action_class ''Adjust'')
              [PFloat (fst (location periodic_point)), PFloat (snd (location periodic_point))] [] =
            Inr adjust_there"
    by (simp add: a action_class_def bind_args_def periodic_point_def adjust_there_def)
  have u: "[0..<4] = [0, 1, 2, 3]"
    by (simp add: upt_rec)
  show ?thesis
    using Waypoint_fires_every_Nth [OF e i s m cm ca, of 4 "[attached]"]
    by (simp add: u periodic_point_def)
qed

section \<open>The counter stays in range (C2)\<close>

lemma Jump_init_fields:
  assumes "Jump_init env b = Inr j"
  shows "1 \<le> jump.frequency j"
    and "jump.counter j = (if validate_boolean (arg b ''skip'') = Inr True then 1 else 0)"
  using assms
  by (auto simp: Jump_init_def split: sum.splits dest: validate_nonzero_int_positive)

lemma Point_execute_counter:
  assumes "Point_execute env p = Inr (p', evs)"
  shows "p' = p \<or> p' = p\<lparr>point.counter := (point.counter p + 1) mod point.frequency p\<rparr>"
  using assms
  by (auto simp: Point_execute_def Point_main_def Point_increment_counter_def
      split: if_splits sum.splits)

lemma Jump_execute_counter:
  assumes "Jump_execute env r j = Inr (r', j', evs)"
  shows "j' = j \<or> j' = j\<lparr>jump.counter := (jump.counter j + 1) mod jump.frequency j\<rparr>"
  using assms
  by (auto simp: Jump_execute_def Jump_main_def Jump_increment_counter_def
      split: if_splits sum.splits option.splits)

lemma Point_reachable_invariant:
  assumes "Point_reachable p0 p" and "1 \<le> point.frequency p0"
  shows "point.frequency p = point.frequency p0 \<and>
         (point.counter p = point.counter p0 \<or>
          (0 \<le> point.counter p \<and> point.counter p < point.frequency p))"
  using assms
proof (induction rule: Point_reachable.induct)
  case Point_constructed
  then show ?case by simp
next
  case (Point_attached p c)
  then show ?case by auto
next
  case (Point_executed p env p' evs)
  then have f: "point.frequency p = point.frequency p0"
    and c: "point.counter p = point.counter p0 \<or>
            (0 \<le> point.counter p \<and> point.counter p < point.frequency p)"
    by blast+
  from Point_execute_counter [OF Point_executed.hyps(2)] show ?case
  proof
    assume "p' = p"
    with f c show ?thesis by simp
  next
    assume "p' = p\<lparr>point.counter := (point.counter p + 1) mod point.frequency p\<rparr>"
    with f Point_executed.prems show ?thesis by simp
  qed
qed

lemma Jump_reachable_invariant:
  assumes "Jump_reachable j0 j" and "1 \<le> jump.frequency j0"
  shows "jump.frequency j = jump.frequency j0 \<and>
         (jump.counter j = jump.counter j0 \<or>
          (0 \<le> jump.counter j \<and> jump.counter j < jump.frequency j))"
  using assms
proof (induction rule: Jump_reachable.induct)
  case Jump_constructed
  then show ?case by simp
next
  case (Jump_bound j la)
  then show ?case by auto
next
  case (Jump_executed j env r r' j' evs)
  then have f: "jump.frequency j = jump.frequency j0"
    and c: "jump.counter j = jump.counter j0 \<or>
            (0 \<le> jump.counter j \<and> jump.counter j < jump.frequency j)"
    by blast+
  from Jump_execute_counter [OF Jump_executed.hyps(2)] show ?case
  proof
    assume "j' = j"
    with f c show ?thesis by simp
  next
    assume "j' = j\<lparr>jump.counter := (jump.counter j + 1) mod jump.frequency j\<rparr>"
    with f Jump_executed.prems show ?thesis by simp
  qed
qed

text \<open>
  Against C2 as stated: the row \<^verbatim>\<open>>, start, skip=True\<close> is valid and constructs a Jump
  with frequency 1 and counter 1, so right after construction the counter is not below
  the frequency.
\<close>

theorem skip_counter_counterexample:
  "Routine_eval sample_env Routine_init [''>'', ''start'', ''skip=True''] 1 =
     Inr (Routine_init\<lparr>heap := [Jump skipping_jump]\<rparr>, Some 0, []) \<and>
   \<not> (jump.counter skipping_jump < jump.frequency skipping_jump)"
  by (simp add: Routine_eval_def lower_def lower_char_def find_class_def SYMBOLS_def
      separate_args_def separate_arg_def split_eq_def strip_def is_space_def
      new_object_def bind_args_def Jump_params_def Jump_init_def arg_def
      validate_nonzero_int_def validate_boolean_def py_str_def register_def Routine_init_def
      skipping_jump_def skipping_args_def)

text \<open>
  C2, amended. A Point and a Jump are constructed with counter 1 if skip is true and 0
  otherwise. For a Point and for a Jump, at every moment from construction onward:
  the frequency is at least 1 and the counter is at least 0; the counter is below the
  frequency, except that an object constructed with skip true and frequency 1 has
  counter 1 until its counter first advances. An advancement of the counter never
  raises and sets it to \<open>(counter + 1) mod frequency\<close>, which lies in \<open>[0, frequency)\<close>.
\<close>

theorem counter_bounds:
  assumes "Point_init env b = Inr p0" and "Point_reachable p0 p"
    and "Jump_init env' b' = Inr j0" and "Jump_reachable j0 j"
  shows "point.counter p0 = (if validate_boolean (arg b ''skip'') = Inr True then 1 else 0) \<and>
         jump.counter j0 = (if validate_boolean (arg b' ''skip'') = Inr True then 1 else 0) \<and>
         1 \<le> point.frequency p \<and> 0 \<le> point.counter p \<and>
         (point.counter p < point.frequency p \<or>
          (point.counter p = 1 \<and> point.frequency p = 1 \<and>
           validate_boolean (arg b ''skip'') = Inr True)) \<and>
         Point_increment_counter e p =
           Inr (if enabled e
                then p\<lparr>point.counter := (point.counter p + 1) mod point.frequency p\<rparr> else p) \<and>
         0 \<le> (point.counter p + 1) mod point.frequency p \<and>
         (point.counter p + 1) mod point.frequency p < point.frequency p \<and>
         1 \<le> jump.frequency j \<and> 0 \<le> jump.counter j \<and>
         (jump.counter j < jump.frequency j \<or>
          (jump.counter j = 1 \<and> jump.frequency j = 1 \<and>
           validate_boolean (arg b' ''skip'') = Inr True)) \<and>
         Jump_increment_counter e j =
           Inr (if enabled e
                then j\<lparr>jump.counter := (jump.counter j + 1) mod jump.frequency j\<rparr> else j) \<and>
         0 \<le> (jump.counter j + 1) mod jump.frequency j \<and>
         (jump.counter j + 1) mod jump.frequency j < jump.frequency j"
proof -
  note pf = Point_init_fields(1,2) [OF assms(1)]
  note pi = Point_reachable_invariant [OF assms(2) pf(1)]
  have p1: "1 \<le> point.frequency p" using pf pi by simp
  have p2: "0 \<le> point.counter p" using pf pi by (auto split: if_splits)
  have p3: "point.counter p < point.frequency p \<or>
          (point.counter p = 1 \<and> point.frequency p = 1 \<and>
           validate_boolean (arg b ''skip'') = Inr True)"
    using pf pi by (auto split: if_splits)
  have p4: "Point_increment_counter e p =
           Inr (if enabled e
                then p\<lparr>point.counter := (point.counter p + 1) mod point.frequency p\<rparr> else p)"
    using p1 by (simp add: Point_increment_counter_def)
  have p5: "0 \<le> (point.counter p + 1) mod point.frequency p"
    "(point.counter p + 1) mod point.frequency p < point.frequency p"
    using p1 by simp_all
  note jf = Jump_init_fields [OF assms(3)]
  note ji = Jump_reachable_invariant [OF assms(4) jf(1)]
  have j1: "1 \<le> jump.frequency j" using jf ji by simp
  have j2: "0 \<le> jump.counter j" using jf ji by (auto split: if_splits)
  have j3: "jump.counter j < jump.frequency j \<or>
          (jump.counter j = 1 \<and> jump.frequency j = 1 \<and>
           validate_boolean (arg b' ''skip'') = Inr True)"
    using jf ji by (auto split: if_splits)
  have j4: "Jump_increment_counter e j =
           Inr (if enabled e
                then j\<lparr>jump.counter := (jump.counter j + 1) mod jump.frequency j\<rparr> else j)"
    using j1 by (simp add: Jump_increment_counter_def)
  have j5: "0 \<le> (jump.counter j + 1) mod jump.frequency j"
    "(jump.counter j + 1) mod jump.frequency j < jump.frequency j"
    using j1 by simp_all
  from pf(2) jf(2) p1 p2 p3 p4 p5 j1 j2 j3 j4 j5 show ?thesis by blast
qed


theorem counter_bounds_witness:
  "point.counter (periodic_point\<lparr>point.counter := 1\<rparr>) <
     point.frequency (periodic_point\<lparr>point.counter := 1\<rparr>) \<and>
   Point_increment_counter sample_env (periodic_point\<lparr>point.counter := 1\<rparr>) =
     Inr (periodic_point\<lparr>point.counter := 2\<rparr>) \<and>
   jump.counter skipping_jump = 1 \<and> jump.frequency skipping_jump = 1 \<and>
   Jump_increment_counter sample_env skipping_jump = Inr (skipping_jump\<lparr>jump.counter := 0\<rparr>)"
proof -
  have pi: "Point_init sample_env periodic_args = Inr periodic_point"
    by (simp add: Point_init_def periodic_args_def periodic_point_def arg_def py_float_def
        sample_env_def int_of_str_def is_digit_def digits_value_def validate_nonzero_int_def
        validate_boolean_def)
  have px: "Point_execute sample_env periodic_point =
      Inr (periodic_point\<lparr>point.counter := 1\<rparr>, [Executed move_there, Executed adjust_there])"
    by (simp add: Point_execute_def Point_main_def Point_fire_def run_action_def
        Point_increment_counter_def Command_execute_def sample_env_def periodic_point_def
        action_class_def bind_args_def move_there_def adjust_there_def)
  have pr: "Point_reachable periodic_point (periodic_point\<lparr>point.counter := 1\<rparr>)"
    using Point_constructed px by (rule Point_executed)
  have ji: "Jump_init sample_env skipping_args = Inr skipping_jump"
    by (simp add: Jump_init_def skipping_args_def skipping_jump_def arg_def py_str_def
        validate_nonzero_int_def validate_boolean_def)
  have jr: "Jump_reachable skipping_jump skipping_jump"
    by (rule Jump_constructed)
  show ?thesis
    using counter_bounds [OF pi pr ji jr, of sample_env]
    by (simp add: sample_env_def periodic_point_def skipping_jump_def)
qed


section \<open>Evaluating the definitions on concrete rows\<close>

lemmas text_defs = lower_def lower_char_def strip_def is_space_def split_eq_def
  separate_args_def separate_arg_def int_of_str_def is_digit_def digits_value_def

lemmas construct_defs = find_class_def SYMBOLS_def new_object_def bind_args_def
  Point_params_def Label_params_def Jump_params_def Setting_params_def
  Point_init_def Label_init_def Jump_init_def Setting_init_def arg_def py_float_def py_str_def
  validate_nonzero_int_def validate_boolean_def register_def name_of_def

lemmas compile_defs = Routine_eval_def place_def heap_get_def heap_put_def add_command_def
  Routine_append_def Routine_set_def

lemmas sample_defs = sample_env_def Routine_init_def one_point_routine_def
  compiled_routine_def linked_routine_def
  sample_point_def sample_label_def sample_jump_def sample_point2_def

lemmas csv_defs = csv_reader_def parse_reset_def parse_process_char_def start_field_def
  end_of_field_def parse_save_field_def parse_add_char_def is_eol_def

section \<open>The scenario of four rows (C9)\<close>

lemma compile_four_rows:
  "compile_rows sample_env
     [[''*'', ''100'', ''200''], [''@'', ''start''], [''>'', ''start''], [''*'', ''300'', ''400'']]
     Routine_init None 1 = Inr (compiled_routine, [])"
  by (simp add: text_defs construct_defs compile_defs sample_defs)

lemma eval_Label_row:
  "Routine_eval sample_env one_point_routine [''@'', ''start''] 2 =
     Inr (one_point_routine
            \<lparr>heap := [Point sample_point, Label (sample_label\<lparr>label.index := Some 1\<rparr>)],
             labels := [''start'' \<mapsto> 1]\<rparr>, Some 1, [])"
  by (simp add: text_defs construct_defs compile_defs sample_defs)

lemma link_four_rows: "bind_jumps compiled_routine = linked_routine"
  by (simp add: bind_jumps_def bind_step_def Jump_bind_def add_link_def heap_get_def sample_defs)

lemma fire_sample_jump:
  "execute sample_env linked_routine 2 = Inr (linked_routine\<lparr>routine.index := Some 1\<rparr>, [])"
  by (simp add: execute_def Jump_execute_def Jump_main_def Jump_increment_counter_def
      heap_get_def heap_put_def sample_defs)

lemma read_sample_file:
  "csv_reader sample_file =
     Inr [[''*'', ''100'', ''200''], [''@'', ''start''], [''>'', ''start''], [''*'', ''300'', ''400'']]"
  by (simp add: csv_defs sample_file_def)

text \<open>The same through \<^verbatim>\<open>load\<close>, from the text of the file.\<close>

lemma load_sample_file:
  "Routine_load sample_env Routine_init (Some ''sample.csv'') =
     Inr (linked_routine\<lparr>path := ''sample.csv''\<rparr>, True, [Loading, SettingsReset, Finished])"
proof -
  have f: "files sample_env ''sample.csv'' = Some sample_file"
    and x: "splitext_ext sample_env ''sample.csv'' = ''.csv''"
    by (simp_all add: sample_env_def splitext_ext_def)
  have r: "(Routine_set Routine_init [])\<lparr>routine.index := Some 0, labels := Map.empty\<rparr> = Routine_init"
    by (simp add: Routine_set_def Routine_init_def)
  show ?thesis
    using compile_four_rows
    by (simp add: Routine_load_def load_file_def Routine_compile_def f x r read_sample_file
        link_four_rows del: compile_rows.simps)
qed

text \<open>
  In general: the index a Label row gets is the length of the sequence at that moment,
  and that is the position the loop of \<^verbatim>\<open>compile\<close> then appends it at.
\<close>

lemma Label_index_is_position:
  assumes "Routine_eval env r row i = Inr (r1, Some a, evs)"
    and "heap_get r1 a = Some (Label l)"
  shows "label.index l = Some (length (sequence r))"
    and "sequence (fst (place r1 cp (Some a))) = sequence r @ [a]"
    and "labels r1 (label.label l) = Some a"
proof -
  from assms(1) obtain ob where r1: "r1 = fst (register r ob)" and a: "a = snd (register r ob)"
    by (auto simp: Routine_eval_def split: list.splits option.splits sum.splits if_splits)
  have a': "a = length (heap r)"
    by (simp add: a register_def split: obj.splits)
  from assms(2) have ob: "ob = Label (l\<lparr>label.index := label.index (case ob of Label l0 \<Rightarrow> l0)\<rparr>) \<and>
      label.index l = Some (length (sequence r)) \<and> sequence r1 = sequence r \<and>
      labels r1 (label.label l) = Some a"
    by (cases ob) (auto simp: r1 a' register_def heap_get_def)
  then show "label.index l = Some (length (sequence r))" by simp
  from ob show "labels r1 (label.label l) = Some a" by simp
  from ob assms(2) show "sequence (fst (place r1 cp (Some a))) = sequence r @ [a]"
    by (simp add: place_def Routine_append_def)
qed

text \<open>
  C9. The text of the sample file reads as the four rows, and \<^verbatim>\<open>load\<close> of the file gives
  the linked routine below. The four rows compile to a sequence of 4 instructions. The Label \<open>start\<close> stands at
  position 1 with index 1, which \<^verbatim>\<open>_eval\<close> assigned while the sequence still had length
  1. After linking, executing the Jump at position 2 sets the program counter, 0 before,
  to 1.
\<close>

theorem scenario_four_rows:
  "csv_reader sample_file =
     Inr [[''*'', ''100'', ''200''], [''@'', ''start''], [''>'', ''start''], [''*'', ''300'', ''400'']] \<and>
   Routine_load sample_env Routine_init (Some ''sample.csv'') =
     Inr (linked_routine\<lparr>path := ''sample.csv''\<rparr>, True, [Loading, SettingsReset, Finished]) \<and>
   compile_rows sample_env
     [[''*'', ''100'', ''200''], [''@'', ''start''], [''>'', ''start''], [''*'', ''300'', ''400'']]
     Routine_init None 1 = Inr (compiled_routine, []) \<and>
   length (sequence compiled_routine) = 4 \<and>
   heap_get compiled_routine (sequence compiled_routine ! 1) =
     Some (Label (sample_label\<lparr>label.index := Some 1\<rparr>)) \<and>
   length (sequence one_point_routine) = 1 \<and>
   Routine_eval sample_env one_point_routine [''@'', ''start''] 2 =
     Inr (one_point_routine
            \<lparr>heap := [Point sample_point, Label (sample_label\<lparr>label.index := Some 1\<rparr>)],
             labels := [''start'' \<mapsto> 1]\<rparr>, Some 1, []) \<and>
   bind_jumps compiled_routine = linked_routine \<and>
   heap_get linked_routine (sequence linked_routine ! 2) = Some (Jump (sample_jump\<lparr>link := Some 1\<rparr>)) \<and>
   routine.index linked_routine = Some 0 \<and>
   execute sample_env linked_routine (sequence linked_routine ! 2) =
     Inr (linked_routine\<lparr>routine.index := Some 1\<rparr>, [])"
proof -
  have s: "sequence compiled_routine = [0, 1, 2, 3]" "sequence linked_routine = [0, 1, 2, 3]"
      "sequence one_point_routine = [0]"
    by (simp_all add: compiled_routine_def linked_routine_def one_point_routine_def)
  have h: "heap_get compiled_routine 1 = Some (Label (sample_label\<lparr>label.index := Some 1\<rparr>))"
      "heap_get linked_routine 2 = Some (Jump (sample_jump\<lparr>link := Some 1\<rparr>))"
      "routine.index linked_routine = Some 0"
    by (simp_all add: heap_get_def compiled_routine_def linked_routine_def)
  have rest: "compile_rows sample_env
     [[''*'', ''100'', ''200''], [''@'', ''start''], [''>'', ''start''], [''*'', ''300'', ''400'']]
     Routine_init None 1 = Inr (compiled_routine, []) \<and>
   length (sequence compiled_routine) = 4 \<and>
   heap_get compiled_routine (sequence compiled_routine ! 1) =
     Some (Label (sample_label\<lparr>label.index := Some 1\<rparr>)) \<and>
   length (sequence one_point_routine) = 1 \<and>
   Routine_eval sample_env one_point_routine [''@'', ''start''] 2 =
     Inr (one_point_routine
            \<lparr>heap := [Point sample_point, Label (sample_label\<lparr>label.index := Some 1\<rparr>)],
             labels := [''start'' \<mapsto> 1]\<rparr>, Some 1, []) \<and>
   bind_jumps compiled_routine = linked_routine \<and>
   heap_get linked_routine (sequence linked_routine ! 2) = Some (Jump (sample_jump\<lparr>link := Some 1\<rparr>)) \<and>
   routine.index linked_routine = Some 0 \<and>
   execute sample_env linked_routine (sequence linked_routine ! 2) =
     Inr (linked_routine\<lparr>routine.index := Some 1\<rparr>, [])"
    using compile_four_rows eval_Label_row link_four_rows fire_sample_jump h
    by (simp add: s del: compile_rows.simps)
  show ?thesis
    by (rule conjI [OF read_sample_file conjI [OF load_sample_file rest]])
qed

section \<open>Duplicate Labels (C6)\<close>

lemma Routine_eval_keeps_labels:
  assumes "Routine_eval env r row i = Inr (r1, res, evs)" and "labels r n = Some a"
  shows "labels r1 n = Some a"
proof -
  have "labels (fst (register r ob)) n = Some a"
    if "new_object env r c args kw = Inr ob" for c args kw ob
  proof (cases ob)
    case (Label l)
    with that have "labels r (label.label l) = None"
      by (cases c)
        (auto simp: new_object_def Label_init_def map_sum_def split: sum.splits if_splits)
    with assms(2) have "label.label l \<noteq> n" by auto
    with Label assms(2) show ?thesis by (simp add: register_def)
  qed (simp_all add: register_def assms(2))
  with assms show ?thesis
    by (auto simp: Routine_eval_def split: list.splits option.splits sum.splits if_splits)
qed

lemma place_keeps_labels: "labels (fst (place r cp res)) = labels r"
  by (simp add: place_def add_command_def heap_put_def Routine_append_def
      split: option.splits obj.splits)

text \<open>A name once registered stays registered, to the same Label, for the rest of the compile.\<close>

lemma compile_rows_keeps_labels:
  assumes "compile_rows env rows r cp i = Inr (r', evs)" and "labels r n = Some a"
  shows "labels r' n = Some a"
  using assms
proof (induction rows arbitrary: r cp i evs)
  case Nil
  then show ?case by simp
next
  case (Cons row rows)
  from Cons.prems(1) obtain r1 res evs1 evs2 where
    e: "Routine_eval env r row i = Inr (r1, res, evs1)" and
    c: "compile_rows env rows (fst (place r1 cp res)) (snd (place r1 cp res)) (i + 1) = Inr (r', evs2)"
    by (auto split: sum.splits)
  have "labels (fst (place r1 cp res)) n = Some a"
    using Routine_eval_keeps_labels [OF e Cons.prems(2)] by (simp add: place_keeps_labels)
  with c show ?case by (rule Cons.IH)
qed

text \<open>
  C6. A row that constructs a Label (first field \<^verbatim>\<open>@\<close>, one argument bound to \<^verbatim>\<open>label\<close>)
  whose name is already in \<^verbatim>\<open>Routine.labels\<close>: the constructor raises \<^verbatim>\<open>ValueError\<close>,
  \<^verbatim>\<open>_eval\<close> reports the line and returns nothing, and \<^verbatim>\<open>compile\<close> goes on with the
  routine as it was: the sequence and the label table keep the first Label only.
\<close>

theorem duplicate_Label_is_skipped:
  assumes "lower f = ''@''"
    and "bind_args Label_params (fst (separate_args rest)) (snd (separate_args rest)) = Inr b"
    and "labels r (py_str env (arg b ''label'')) = Some a"
  shows "Label_init env (labels r) b = Inl ValueError \<and>
         Routine_eval env r (f # rest) i = Inr (r, None, [InvalidArguments i ''Label'' ValueError]) \<and>
         compile_rows env ((f # rest) # rows) r cp i =
           (case compile_rows env rows r cp (i + 1) of
              Inl e \<Rightarrow> Inl e
            | Inr (r', evs) \<Rightarrow> Inr (r', InvalidArguments i ''Label'' ValueError # evs))"
proof -
  have l: "Label_init env (labels r) b = Inl ValueError"
    using assms(3) by (simp add: Label_init_def)
  have e: "Routine_eval env r (f # rest) i = Inr (r, None, [InvalidArguments i ''Label'' ValueError])"
    using assms(1,2) l
    by (simp add: Routine_eval_def find_class_def SYMBOLS_def new_object_def name_of_def)
  have c: "compile_rows env ((f # rest) # rows) r cp i =
           (case compile_rows env rows r cp (i + 1) of
              Inl e \<Rightarrow> Inl e
            | Inr (r', evs) \<Rightarrow> Inr (r', InvalidArguments i ''Label'' ValueError # evs))"
    by (simp add: e place_def split: sum.splits)
  from l e c show ?thesis by simp
qed

theorem duplicate_Label_is_skipped_witness:
  "Routine_eval sample_env compiled_routine [''@'', ''start''] 5 =
     Inr (compiled_routine, None, [InvalidArguments 5 ''Label'' ValueError]) \<and>
   compile_rows sample_env [[''@'', ''start'']] compiled_routine (Some 3) 5 =
     Inr (compiled_routine, [InvalidArguments 5 ''Label'' ValueError]) \<and>
   compile_rows sample_env [[''@'', ''start''], [''@'', ''start'']] Routine_init None 1 =
     Inr (Routine_init\<lparr>heap := [Label (sample_label\<lparr>label.index := Some 0\<rparr>)],
                       labels := [''start'' \<mapsto> 0], sequence := [0]\<rparr>,
          [InvalidArguments 2 ''Label'' ValueError])"
proof -
  have two: "compile_rows sample_env [[''@'', ''start''], [''@'', ''start'']] Routine_init None 1 =
     Inr (Routine_init\<lparr>heap := [Label (sample_label\<lparr>label.index := Some 0\<rparr>)],
                       labels := [''start'' \<mapsto> 0], sequence := [0]\<rparr>,
          [InvalidArguments 2 ''Label'' ValueError])"
    by (simp add: text_defs construct_defs compile_defs sample_defs)
  have f: "lower ''@'' = ''@''"
    by (simp add: lower_def lower_char_def)
  have b: "bind_args Label_params (fst (separate_args [''start''])) (snd (separate_args [''start''])) =
           Inr [(''label'', PStr ''start'')]"
    by (simp add: text_defs bind_args_def Label_params_def)
  have l: "labels compiled_routine (py_str sample_env (arg [(''label'', PStr ''start'')] ''label'')) = Some 1"
    by (simp add: compiled_routine_def py_str_def arg_def)
  show ?thesis
    using duplicate_Label_is_skipped [OF f b l, of 5 "[]" "Some 3"] two
    by (simp add: place_def del: compile_rows.simps(2))
qed


section \<open>Encoding and parsing again (C5)\<close>

subsection \<open>Trimmed text\<close>

lemma strip_id_iff: "strip s = s \<longleftrightarrow> s = [] \<or> (\<not> is_space (hd s) \<and> \<not> is_space (last s))"
proof (cases "s = []")
  case True
  then show ?thesis by (simp add: strip_def)
next
  case False
  let ?u = "dropWhile is_space s"
  show ?thesis
  proof
    assume eq: "strip s = s"
    have split: "?u = strip s @ rev (takeWhile is_space (rev ?u))"
      using takeWhile_dropWhile_id [of is_space "rev ?u"]
      by (metis rev_append rev_rev_ident strip_def)
    have "length ?u \<le> length s" by (rule length_dropWhile_le)
    moreover have "length s \<le> length ?u" using split eq by (metis length_append le_add1)
    ultimately have u: "?u = s"
      by (metis dropWhile_eq_self_iff dropWhile_eq_Nil_conv False hd_dropWhile le_antisym
          length_0_conv takeWhile_dropWhile_id append_eq_conv_conj length_takeWhile_le
          self_append_conv2 length_append add_diff_cancel_right' diff_is_0_eq' takeWhile_eq_all_conv)
    then have h: "\<not> is_space (hd s)"
      using False by (metis hd_dropWhile)
    from eq u have "dropWhile is_space (rev s) = rev s"
      by (simp add: strip_def) (metis rev_rev_ident)
    then have "\<not> is_space (hd (rev s))"
      using False by (metis hd_dropWhile rev_is_Nil_conv)
    then have "\<not> is_space (last s)"
      using False by (simp add: hd_rev)
    with h show "s = [] \<or> (\<not> is_space (hd s) \<and> \<not> is_space (last s))" by simp
  next
    assume "s = [] \<or> (\<not> is_space (hd s) \<and> \<not> is_space (last s))"
    with False have h: "\<not> is_space (hd s)" and l: "\<not> is_space (last s)" by simp_all
    from h False have u: "?u = s" by (simp add: dropWhile_eq_self_iff)
    from l False have "dropWhile is_space (rev s) = rev s"
      by (simp add: dropWhile_eq_self_iff hd_rev)
    with u show "strip s = s" by (simp add: strip_def)
  qed
qed

lemma strip_strip: "strip (strip s) = strip s"
proof (cases "strip s = []")
  case True
  have "strip [] = []" by (simp add: strip_def)
  with True show ?thesis by simp
next
  case False
  let ?u = "dropWhile is_space s"
  have split: "?u = strip s @ rev (takeWhile is_space (rev ?u))"
    using takeWhile_dropWhile_id [of is_space "rev ?u"]
    by (metis rev_append rev_rev_ident strip_def)
  have u: "?u \<noteq> []"
  proof
    assume "?u = []"
    then have "strip s = []" by (simp only: strip_def rev.simps dropWhile.simps)
    with False show False by simp
  qed
  then have "\<not> is_space (hd ?u)" by (rule hd_dropWhile)
  moreover have "hd ?u = hd (strip s)"
    using split False by (metis hd_append2)
  ultimately have h: "\<not> is_space (hd (strip s))" by simp
  have "rev (strip s) = dropWhile is_space (rev ?u)" by (simp add: strip_def)
  moreover have "dropWhile is_space (rev ?u) \<noteq> []" using False by (simp add: strip_def)
  ultimately have "\<not> is_space (hd (rev (strip s)))" by (metis hd_dropWhile)
  then have "\<not> is_space (last (strip s))" using False by (simp add: hd_rev)
  with h show ?thesis by (simp add: strip_id_iff)
qed

lemma set_strip: "set (strip s) \<subseteq> set s"
proof -
  have "set (strip s) \<subseteq> set (dropWhile is_space s)"
    unfolding strip_def using set_dropWhileD [of _ is_space "rev (dropWhile is_space s)"] by auto
  also have "\<dots> \<subseteq> set s" using set_dropWhileD by fast
  finally show ?thesis .
qed

lemma plain_subset: "plain s \<Longrightarrow> set t \<subseteq> set s \<Longrightarrow> plain t"
  by (auto simp: plain_def list_all_iff)

lemma row_text_strip: "plain s \<Longrightarrow> row_text (strip s)"
  by (simp add: row_text_def strip_strip plain_subset [OF _ set_strip])

lemma plain_split_eq:
  assumes "plain s" and "split_eq s = Some (k, v)"
  shows "plain k" and "plain v"
proof -
  from assms(2) have k: "k = takeWhile (\<lambda>c. c \<noteq> CHR ''='') s"
    and v: "v = tl (dropWhile (\<lambda>c. c \<noteq> CHR ''='') s)"
    by (auto simp: split_eq_def split: if_splits)
  have "set k \<subseteq> set s" unfolding k using set_takeWhileD by fast
  with assms(1) show "plain k" by (rule plain_subset)
  have "set v \<subseteq> set (dropWhile (\<lambda>c. c \<noteq> CHR ''='') s)"
    unfolding v by (metis list.sel(2) list.set_sel(2) subsetI)
  also have "\<dots> \<subseteq> set s" using set_dropWhileD by fast
  finally have "set v \<subseteq> set s" .
  with assms(1) show "plain v" by (rule plain_subset)
qed

subsection \<open>The values a row gives a constructor\<close>

lemma set_AList_update:
  "kv \<in> set (AList.update k v al) \<Longrightarrow> kv = (k, v) \<or> kv \<in> set al"
  by (induction al) (auto split: if_splits)

lemma separate_arg_from_row:
  assumes "plain a" and "list_all from_row (fst acc)" and "list_all from_row (map snd (snd acc))"
  shows "list_all from_row (fst (separate_arg acc a)) \<and>
         list_all from_row (map snd (snd (separate_arg acc a)))"
proof (cases "split_eq (strip a)")
  case None
  then show ?thesis
    using assms by (simp add: separate_arg_def row_text_strip)
next
  case (Some kv)
  obtain k v where kv: "kv = (k, v)" by (cases kv)
  have "plain (strip a)" using assms(1) by (rule plain_subset) (rule set_strip)
  then have "plain v" using Some unfolding kv by (rule plain_split_eq)
  then have "from_row (PStr (strip v))" by (simp add: row_text_strip)
  then show ?thesis
    using assms Some kv
    by (auto simp: separate_arg_def list_all_iff dest!: set_AList_update)
qed

lemma separate_args_from_row:
  assumes "list_all plain rest"
  shows "list_all from_row (fst (separate_args rest)) \<and>
         list_all from_row (map snd (snd (separate_args rest)))"
proof -
  have "list_all from_row (fst (foldl separate_arg acc rest)) \<and>
        list_all from_row (map snd (snd (foldl separate_arg acc rest)))"
    if "list_all from_row (fst acc)" and "list_all from_row (map snd (snd acc))" for acc
    using assms that
  proof (induction rest arbitrary: acc)
    case Nil
    then show ?case by simp
  next
    case (Cons a rest)
    then show ?case using separate_arg_from_row [of a acc] by simp
  qed
  then show ?thesis by (simp add: separate_args_def)
qed

text \<open>
  What \<^verbatim>\<open>c(*args, **kwargs)\<close> binds: the parameters in their order, each to a value of the
  call or to its default.
\<close>

lemma bind_positional_values:
  assumes "bind_positional ps args = Inr (b, r)"
  shows "map fst b @ map fst r = map fst ps \<and> set (map snd b) \<subseteq> set args \<and> set r \<subseteq> set ps"
  using assms
proof (induction ps args arbitrary: b r rule: bind_positional.induct)
  case (1 ps)
  then show ?case by auto
next
  case (2 a as)
  then show ?case by simp
next
  case (3 p ps a as)
  then show ?case by (fastforce split: sum.splits)
qed

lemma bind_keywords_values:
  assumes "bind_keywords ps kw = Inr b"
  shows "map fst b = map fst ps \<and>
         (\<forall>kv \<in> set b. snd kv \<in> snd ` set kw \<or> (fst kv, Some (snd kv)) \<in> set ps)"
  using assms
proof (induction ps arbitrary: b)
  case Nil
  then show ?case by simp
next
  case (Cons p ps)
  from Cons.prems obtain v b' where
    v: "(case map_of kw (fst p) of Some v \<Rightarrow> Some v | None \<Rightarrow> snd p) = Some v" and
    r: "bind_keywords ps kw = Inr b'" and b: "b = (fst p, v) # b'"
    by (auto split: sum.splits option.splits)
  from v have "v \<in> snd ` set kw \<or> (fst p, Some v) \<in> set (p # ps)"
    by (cases p) (auto split: option.splits dest!: map_of_SomeD intro: rev_image_eqI)
  with Cons.IH [OF r] b show ?case by auto
qed

lemma bind_args_values:
  assumes "bind_args ps args kw = Inr b"
    and "list_all from_row args" and "list_all from_row (map snd kw)"
  shows "map fst b = map fst ps \<and>
         (\<forall>kv \<in> set b. from_row (snd kv) \<or> (fst kv, Some (snd kv)) \<in> set ps)"
proof -
  from assms(1) obtain b1 r b2 where
    p: "bind_positional ps args = Inr (b1, r)" and k: "bind_keywords r kw = Inr b2" and
    b: "b = b1 @ b2"
    by (auto simp: bind_args_def split: sum.splits if_splits)
  note pv = bind_positional_values [OF p]
  note kv = bind_keywords_values [OF k]
  have "map fst b = map fst ps" using pv kv b by simp
  moreover have "from_row (snd x) \<or> (fst x, Some (snd x)) \<in> set ps" if "x \<in> set b" for x
  proof (cases "x \<in> set b1")
    case True
    then have "snd x \<in> set args" using pv by auto
    then show ?thesis using assms(2) by (simp add: list_all_iff)
  next
    case False
    with that b have x: "x \<in> set b2" by simp
    with kv have "snd x \<in> snd ` set kw \<or> (fst x, Some (snd x)) \<in> set r" by blast
    then show ?thesis using assms(3) pv by (auto simp: list_all_iff)
  qed
  ultimately show ?thesis by blast
qed


subsection \<open>Reading a line of joined fields\<close>

lemma process_in_field:
  assumes "plain t"
  shows "process_chars \<lparr>rstate = IN_FIELD, rfields = acc, rfield = cur\<rparr> (t @ rest) =
         process_chars \<lparr>rstate = IN_FIELD, rfields = acc, rfield = cur @ t\<rparr> rest"
  using assms
proof (induction t arbitrary: cur)
  case Nil
  then show ?case by simp
next
  case (Cons c t)
  then have c: "c \<noteq> CHR '',''" "\<not> is_eol c" and t: "plain t"
    by (simp_all add: plain_def)
  have "parse_process_char \<lparr>rstate = IN_FIELD, rfields = acc, rfield = cur\<rparr> (Some c) =
        Inr \<lparr>rstate = IN_FIELD, rfields = acc, rfield = cur @ [c]\<rparr>"
    using c by (simp add: parse_process_char_def parse_add_char_def)
  then show ?case using Cons.IH [OF t, of "cur @ [c]"] by simp
qed

lemma process_field:
  assumes "field_ok fd" and "st = START_RECORD \<or> st = START_FIELD"
  shows "process_chars \<lparr>rstate = st, rfields = acc, rfield = []\<rparr> (fd @ rest) =
         process_chars \<lparr>rstate = IN_FIELD, rfields = acc, rfield = fd\<rparr> rest"
proof -
  from assms(1) obtain c t where fd: "fd = c # t"
    by (cases fd) (simp_all add: field_ok_def)
  from assms(1) have c: "c \<noteq> CHR '' ''" "c \<noteq> CHR 0x22" "c \<noteq> CHR '',''" "\<not> is_eol c"
    and t: "plain t"
    by (simp_all add: fd field_ok_def plain_def)
  have "parse_process_char \<lparr>rstate = st, rfields = acc, rfield = []\<rparr> (Some c) =
        Inr \<lparr>rstate = IN_FIELD, rfields = acc, rfield = [c]\<rparr>"
    using c assms(2) by (auto simp: parse_process_char_def start_field_def parse_add_char_def)
  then show ?thesis
    using process_in_field [OF t, of acc "[c]" rest] by (simp add: fd)
qed

lemma process_separator_chars:
  "process_chars \<lparr>rstate = IN_FIELD, rfields = acc, rfield = cur\<rparr>
     (CHR '','' # CHR '' '' # rest) =
   process_chars \<lparr>rstate = START_FIELD, rfields = acc @ [cur], rfield = []\<rparr> rest"
  apply (simp add: parse_process_char_def is_eol_def parse_save_field_def)
  apply (simp add: start_field_def is_eol_def)
  done

lemma process_separator:
  "process_chars \<lparr>rstate = IN_FIELD, rfields = acc, rfield = cur\<rparr> ('', '' @ rest) =
   process_chars \<lparr>rstate = START_FIELD, rfields = acc @ [cur], rfield = []\<rparr> rest"
  by (simp only: append_Cons append_Nil process_separator_chars)

lemma process_end:
  "process_chars \<lparr>rstate = IN_FIELD, rfields = acc, rfield = cur\<rparr> [] =
   Inr \<lparr>rstate = START_RECORD, rfields = acc @ [cur], rfield = []\<rparr>"
  by (simp add: parse_process_char_def end_of_field_def parse_save_field_def)

lemma process_line:
  assumes "list_all field_ok (fd # fds)" and "st = START_RECORD \<or> st = START_FIELD"
  shows "process_chars \<lparr>rstate = st, rfields = acc, rfield = []\<rparr> (join '', '' (fd # fds)) =
         Inr \<lparr>rstate = START_RECORD, rfields = acc @ fd # fds, rfield = []\<rparr>"
  using assms
proof (induction fds arbitrary: fd acc st)
  case Nil
  then have "field_ok fd" by simp
  from process_field [OF this Nil.prems(2), of acc "[]"] process_end [of acc fd] show ?case
    by simp
next
  case (Cons g gs)
  then have fd: "field_ok fd" and rest: "list_all field_ok (g # gs)" by simp_all
  have "process_chars \<lparr>rstate = st, rfields = acc, rfield = []\<rparr> (join '', '' (fd # g # gs)) =
        process_chars \<lparr>rstate = IN_FIELD, rfields = acc, rfield = fd\<rparr> ('', '' @ join '', '' (g # gs))"
    using process_field [OF fd Cons.prems(2), of acc "'', '' @ join '', '' (g # gs)"] by simp
  also have "\<dots> = process_chars \<lparr>rstate = START_FIELD, rfields = acc @ [fd], rfield = []\<rparr>
                     (join '', '' (g # gs))"
    by (rule process_separator)
  also have "\<dots> = Inr \<lparr>rstate = START_RECORD, rfields = (acc @ [fd]) @ g # gs, rfield = []\<rparr>"
    by (rule Cons.IH [OF rest]) simp
  finally show ?case by simp
qed


lemma readlines_one_line:
  assumes "list_all (\<lambda>c. \<not> is_eol c) t" and "cur @ t \<noteq> []"
  shows "readlines cur t = [cur @ t]"
  using assms
proof (induction t arbitrary: cur)
  case Nil
  then show ?case by simp
next
  case (Cons c t)
  then have c: "c \<noteq> CHR 0x0A" "c \<noteq> CHR 0x0D" and t: "list_all (\<lambda>c. \<not> is_eol c) t"
    by (simp_all add: is_eol_def)
  have "readlines cur (c # t) = readlines (cur @ [c]) t"
    using c by simp
  also have "\<dots> = [(cur @ [c]) @ t]"
    using t by (rule Cons.IH) simp
  finally show ?case by simp
qed

lemma no_eol_append:
  "list_all (\<lambda>c. \<not> is_eol c) (s @ t) \<longleftrightarrow>
   list_all (\<lambda>c. \<not> is_eol c) s \<and> list_all (\<lambda>c. \<not> is_eol c) t"
  by simp

lemma field_ok_no_eol: "field_ok fd \<Longrightarrow> list_all (\<lambda>c. \<not> is_eol c) fd"
  by (simp add: field_ok_def plain_def list_all_iff)

lemma join_no_eol:
  assumes "list_all field_ok fds"
  shows "list_all (\<lambda>c. \<not> is_eol c) (join '', '' fds)"
  using assms
proof (induction fds)
  case Nil
  then show ?case by simp
next
  case (Cons fd fds)
  show ?case
  proof (cases fds)
    case Nil
    with Cons.prems show ?thesis by (simp add: field_ok_no_eol)
  next
    case (Cons g gs)
    have sep: "list_all (\<lambda>c. \<not> is_eol c) '', ''"
      by (simp add: is_eol_def)
    have "list_all (\<lambda>c. \<not> is_eol c) (join '', '' (g # gs))"
      using Cons.IH Cons.prems Cons by simp
    moreover have "list_all (\<lambda>c. \<not> is_eol c) fd"
      using Cons.prems by (simp add: field_ok_no_eol)
    ultimately have "list_all (\<lambda>c. \<not> is_eol c) (fd @ '', '' @ join '', '' (g # gs))"
      using sep by (simp only: no_eol_append)
    then show ?thesis by (simp add: Cons)
  qed
qed

lemma join_not_Nil: "field_ok fd \<Longrightarrow> join sep (fd # fds) \<noteq> []"
  by (cases fds) (simp_all add: field_ok_def)


lemma read_joined_line:
  assumes "list_all field_ok (fd # fds)"
  shows "read_records parse_reset (readlines [] (join '', '' (fd # fds))) = Inr [fd # fds]"
proof -
  have "readlines [] (join '', '' (fd # fds)) = [join '', '' (fd # fds)]"
    using readlines_one_line [OF join_no_eol [OF assms], of "[]"] join_not_Nil [of fd] assms
    by simp
  moreover have "process_chars parse_reset (join '', '' (fd # fds)) =
      Inr \<lparr>rstate = START_RECORD, rfields = fd # fds, rfield = []\<rparr>"
    using process_line [OF assms, of START_RECORD "[]"] by (simp add: parse_reset_def)
  ultimately show ?thesis by (simp add: parse_reset_def)
qed

lemma csv_reader_line:
  assumes "list_all field_ok (fd # fds)"
  shows "csv_reader (join '', '' (fd # fds)) = Inr [fd # fds]"
  using read_joined_line [OF assms] by (simp add: csv_reader_def)

lemma csv_reader_blank_line:
  assumes "list_all field_ok (fd # fds)"
  shows "csv_reader (CHR 0x0A # join '', '' (fd # fds)) = Inr [[], fd # fds]"
proof -
  have "process_chars parse_reset [CHR 0x0A] = Inr parse_reset"
    by (simp add: parse_reset_def parse_process_char_def is_eol_def)
  then show ?thesis
    using read_joined_line [OF assms] by (simp add: csv_reader_def parse_reset_def)
qed


subsection \<open>Encoded arguments\<close>

lemma row_text_1: "row_text ''1''" and row_text_False: "row_text ''False''"
  by (simp_all add: row_text_def strip_id_iff is_space_def plain_def is_eol_def)

lemma str_int_1: "str_int 1 = ''1''"
  by code_simp

lemma from_row_PStr: "from_row v \<Longrightarrow> \<exists>t. v = PStr t \<and> row_text t"
  by (cases v) simp_all

lemma arg_ok_text: "arg_ok v \<Longrightarrow> row_text (py_str env v)"
  by (auto simp: arg_ok_def py_str_def str_int_1 row_text_1 dest: from_row_PStr)

lemma arg_ok_primitive: "arg_ok v \<Longrightarrow> is_primitive v"
  by (auto simp: arg_ok_def dest: from_row_PStr)

lemma py_str_text: "py_str env (PStr t) = t"
  by (simp add: py_str_def)

lemma from_row_again: "from_row v \<Longrightarrow> PStr (py_str env v) = v"
  by (auto simp: py_str_def dest: from_row_PStr)

lemma validate_nonzero_int_text:
  "arg_ok v \<Longrightarrow> validate_nonzero_int (PStr (py_str env v)) = validate_nonzero_int v"
proof -
  assume "arg_ok v"
  then consider "from_row v" | "v = PInt 1" by (auto simp: arg_ok_def)
  then show ?thesis
  proof cases
    case 1
    then show ?thesis by (simp add: from_row_again)
  next
    case 2
    have "validate_nonzero_int (PStr ''1'') = Inr 1"
      by (simp add: validate_nonzero_int_def int_of_str_def is_digit_def digits_value_def)
    then show ?thesis by (simp add: 2 py_str_def str_int_1 validate_nonzero_int_def)
  qed
qed

lemma validate_boolean_text:
  "arg_ok v \<Longrightarrow> validate_boolean (PStr (py_str env v)) = validate_boolean v"
proof -
  assume "arg_ok v"
  then consider "from_row v" | "v = PInt 1" by (auto simp: arg_ok_def)
  then show ?thesis
  proof cases
    case 1
    then show ?thesis by (simp add: from_row_again)
  next
    case 2
    then show ?thesis by (simp add: py_str_def str_int_1 validate_boolean_def)
  qed
qed

lemma arg_ok_text_ok: "arg_ok v \<Longrightarrow> text_ok env v"
  by (simp add: text_ok_def arg_ok_text arg_ok_primitive)

lemma strip_encoded:
  assumes "key_ok k" and "strip t = t"
  shows "strip (k @ ''='' @ t) = k @ ''='' @ t"
proof -
  have eq: "\<not> is_space CHR ''=''" by (simp add: is_space_def)
  have h: "hd (k @ ''='' @ t) = hd k" using assms(1) by (simp add: key_ok_def)
  have l: "\<not> is_space (last (k @ ''='' @ t))"
  proof (cases "t = []")
    case True
    then show ?thesis using eq by simp
  next
    case False
    with assms(2) have "\<not> is_space (last t)" by (simp add: strip_id_iff)
    with False show ?thesis by simp
  qed
  from h l assms(1) show ?thesis by (simp add: strip_id_iff key_ok_def)
qed

lemma split_eq_encoded:
  assumes "CHR ''='' \<notin> set k"
  shows "split_eq (k @ ''='' @ t) = Some (k, t)"
proof -
  have all: "\<forall>c \<in> set k. c \<noteq> CHR ''=''" using assms by auto
  have "takeWhile (\<lambda>c. c \<noteq> CHR ''='') (k @ CHR ''='' # t) = k"
    using all by (simp add: takeWhile_tail)
  moreover have "dropWhile (\<lambda>c. c \<noteq> CHR ''='') (k @ CHR ''='' # t) = CHR ''='' # t"
    using all by (simp add: dropWhile_append2)
  ultimately show ?thesis by (simp add: split_eq_def)
qed

lemma key_ok_strip: "key_ok k \<Longrightarrow> strip k = k"
  by (simp add: key_ok_def strip_id_iff)

lemma separate_arg_encoded:
  assumes "key_ok k" and "text_ok env v"
  shows "separate_arg acc (encode_arg env (k, v)) =
         (fst acc, AList.update k (PStr (py_str env v)) (snd acc))"
proof -
  have t: "strip (py_str env v) = py_str env v"
    using assms(2) by (simp add: text_ok_def row_text_def)
  have "strip (k @ ''='' @ py_str env v) = k @ ''='' @ py_str env v"
    using assms(1) t by (rule strip_encoded)
  moreover have "split_eq (k @ ''='' @ py_str env v) = Some (k, py_str env v)"
    using assms(1) by (intro split_eq_encoded) (simp add: key_ok_def)
  ultimately show ?thesis
    using t assms(1) by (simp add: separate_arg_def encode_arg_def key_ok_strip)
qed

lemma AList_update_new: "k \<notin> fst ` set al \<Longrightarrow> AList.update k v al = al @ [(k, v)]"
  by (induction al) auto

lemma separate_encoded_fold:
  assumes "list_all (\<lambda>kv. key_ok (fst kv) \<and> text_ok env (snd kv)) b"
    and "distinct (map fst b)" and "fst ` set b \<inter> fst ` set kw = {}"
  shows "foldl separate_arg (args, kw) (map (encode_arg env) b) = (args, kw @ as_text env b)"
  using assms
proof (induction b arbitrary: kw)
  case Nil
  then show ?case by (simp add: as_text_def)
next
  case (Cons kv b)
  obtain k v where kv: "kv = (k, v)" by (cases kv)
  from Cons.prems have ok: "key_ok k" "text_ok env v" and new: "k \<notin> fst ` set kw"
    by (auto simp: kv)
  have step: "separate_arg (args, kw) (encode_arg env kv) = (args, kw @ [(k, PStr (py_str env v))])"
    using separate_arg_encoded [OF ok, of "(args, kw)"] new
    by (simp add: kv AList_update_new)
  have rest: "foldl separate_arg (args, kw @ [(k, PStr (py_str env v))]) (map (encode_arg env) b) =
              (args, (kw @ [(k, PStr (py_str env v))]) @ as_text env b)"
    using Cons.prems by (intro Cons.IH) (auto simp: kv)
  show ?case
    using step rest by (simp add: kv as_text_def)
qed

lemma separate_args_encoded:
  assumes "list_all (\<lambda>kv. key_ok (fst kv) \<and> text_ok env (snd kv)) b" and "distinct (map fst b)"
  shows "separate_args (map (encode_arg env) b) = ([], as_text env b)"
  using separate_encoded_fold [OF assms, of "[]" "[]"] by (simp add: separate_args_def)

lemma Component_encode_all:
  assumes "list_all (\<lambda>kv. key_ok (fst kv) \<and> text_ok env (snd kv)) (init_args c)"
  shows "Component_encode env c = join '', '' (ident c # map (encode_arg env) (init_args c))"
proof -
  have "filter (\<lambda>kv. fst kv \<noteq> ''id'' \<and> is_primitive (snd kv)) (init_args c) = init_args c"
    using assms by (auto simp: filter_id_conv list_all_iff key_ok_def text_ok_def)
  then show ?thesis by (simp add: Component_encode_def)
qed

lemma encoded_field_ok:
  assumes "key_ok k" and "text_ok env v"
  shows "field_ok (encode_arg env (k, v))"
proof -
  have "plain (py_str env v)" using assms(2) by (simp add: text_ok_def row_text_def)
  moreover have "plain ''=''" by (simp add: plain_def is_eol_def)
  ultimately have "plain (k @ ''='' @ py_str env v)"
    using assms(1) by (simp add: plain_def key_ok_def)
  moreover have "hd k \<noteq> CHR '' ''"
    using assms(1) by (auto simp: key_ok_def is_space_def)
  ultimately show ?thesis
    using assms(1) by (simp add: field_ok_def encode_arg_def key_ok_def)
qed

subsection \<open>Binding keyword arguments only\<close>

lemma bind_keywords_all:
  assumes "\<forall>p \<in> set ps. map_of kw (fst p) \<noteq> None"
  shows "bind_keywords ps kw = Inr (map (\<lambda>p. (fst p, the (map_of kw (fst p)))) ps)"
  using assms by (induction ps) auto

lemma alist_rebuild:
  assumes "distinct (map fst kw)"
  shows "map (\<lambda>k. (k, the (map_of kw k))) (map fst kw) = kw"
proof -
  have "map (\<lambda>k. (k, the (map_of kw k))) (map fst kw) =
        map (\<lambda>kv. (fst kv, the (map_of kw (fst kv)))) kw"
    by (simp add: comp_def)
  also have "\<dots> = map (\<lambda>kv. kv) kw"
  proof (rule map_cong [OF refl])
    fix kv assume "kv \<in> set kw"
    then have "map_of kw (fst kv) = Some (snd kv)"
      using assms map_of_is_SomeI [of kw "fst kv" "snd kv"] by simp
    then show "(fst kv, the (map_of kw (fst kv))) = kv" by simp
  qed
  finally show ?thesis by simp
qed

lemma bind_args_keywords_only:
  assumes "map fst kw = map fst ps" and "distinct (map fst ps)"
  shows "bind_args ps [] kw = Inr kw"
proof -
  have "\<forall>p \<in> set ps. map_of kw (fst p) \<noteq> None"
  proof
    fix p assume "p \<in> set ps"
    then have "fst p \<in> fst ` set kw" using assms(1) by (metis image_eqI list.set_map)
    then show "map_of kw (fst p) \<noteq> None" by (simp add: map_of_eq_None_iff)
  qed
  then have "bind_keywords ps kw = Inr (map (\<lambda>p. (fst p, the (map_of kw (fst p)))) ps)"
    by (rule bind_keywords_all)
  also have "map (\<lambda>p. (fst p, the (map_of kw (fst p)))) ps =
             map (\<lambda>k. (k, the (map_of kw k))) (map fst ps)"
    by (simp add: comp_def)
  also have "\<dots> = kw"
    using alist_rebuild [of kw] assms by simp
  finally have k: "bind_keywords ps kw = Inr kw" .
  have "list_all (\<lambda>k. k \<in> set (map fst ps)) (map fst kw)"
    using assms(1) by (simp add: list_all_iff)
  with k show ?thesis
    by (cases ps) (simp_all add: bind_args_def)
qed


subsection \<open>The bound arguments of a row\<close>

lemma map_of_as_text:
  "map_of (as_text env b) k = map_option (\<lambda>v. PStr (py_str env v)) (map_of b k)"
  by (induction b) (simp_all add: as_text_def)

lemma arg_as_text: "map_of b k = Some v \<Longrightarrow> arg (as_text env b) k = PStr (py_str env v)"
  by (simp add: arg_def map_of_as_text)

lemma bound_arg:
  assumes "bind_args ps args kw = Inr b"
    and "list_all from_row args" and "list_all from_row (map snd kw)"
    and "distinct (map fst ps)" and "(k, d) \<in> set ps"
  shows "\<exists>v. map_of b k = Some v \<and> arg b k = v \<and> (from_row v \<or> d = Some v)"
proof -
  note bv = bind_args_values [OF assms(1-3)]
  from assms(5) have "k \<in> fst ` set b"
    using bv by (metis fst_conv image_eqI list.set_map)
  then obtain v where v: "map_of b k = Some v"
    by (metis map_of_eq_None_iff not_None_eq)
  then have "(k, v) \<in> set b" by (rule map_of_SomeD)
  with bv have "from_row v \<or> (k, Some v) \<in> set ps" by fastforce
  moreover have "d = Some v" if "(k, Some v) \<in> set ps"
    using that assms(4,5) by (meson eq_key_imp_eq_value)
  ultimately show ?thesis using v by (auto simp: arg_def)
qed

lemma bound_arg_ok:
  assumes "bind_args ps args kw = Inr b"
    and "list_all from_row args" and "list_all from_row (map snd kw)"
    and "distinct (map fst ps)" and "(k, Some d) \<in> set ps" and "arg_ok d"
  shows "\<exists>v. map_of b k = Some v \<and> arg b k = v \<and> arg_ok v"
proof -
  from bound_arg [OF assms(1-5)] obtain v where
    v: "map_of b k = Some v" "arg b k = v" and c: "from_row v \<or> Some d = Some v"
    by blast
  from c assms(6) have "arg_ok v" by (auto simp: arg_ok_def)
  with v show ?thesis by blast
qed

text \<open>The four signatures: distinct parameter names, defaults that are text or the integer 1.\<close>

lemma key_ok_params:
  "key_ok ''x''" "key_ok ''y''" "key_ok ''frequency''" "key_ok ''skip''" "key_ok ''adjust''"
  "key_ok ''label''" "key_ok ''key''" "key_ok ''value''"
  by (simp_all add: key_ok_def is_space_def plain_def is_eol_def)

lemma arg_ok_defaults: "arg_ok (PInt 1)" "arg_ok (PStr ''False'')"
  by (simp_all add: arg_ok_def row_text_False)

lemma bound_args_ok:
  assumes "bind_args ps args kw = Inr b"
    and "list_all from_row args" and "list_all from_row (map snd kw)"
    and "distinct (map fst ps)"
    and "list_all (\<lambda>p. key_ok (fst p) \<and> (\<forall>v. snd p = Some v \<longrightarrow> arg_ok v)) ps"
  shows "list_all (\<lambda>kv. key_ok (fst kv) \<and> text_ok env (snd kv)) b"
    and "distinct (map fst b)"
    and "bind_args ps [] (as_text env b) = Inr (as_text env b)"
    and "separate_args (map (encode_arg env) b) = ([], as_text env b)"
proof -
  note bv = bind_args_values [OF assms(1-3)]
  show d: "distinct (map fst b)" using bv assms(4) by simp
  show ok: "list_all (\<lambda>kv. key_ok (fst kv) \<and> text_ok env (snd kv)) b"
    unfolding list_all_iff
  proof
    fix kv assume kv: "kv \<in> set b"
    then have "fst kv \<in> set (map fst ps)" using bv by (metis image_eqI list.set_map)
    then obtain p where p: "p \<in> set ps" "fst p = fst kv" by auto
    with assms(5) have k: "key_ok (fst kv)" by (auto simp: list_all_iff)
    from kv bv have "from_row (snd kv) \<or> (fst kv, Some (snd kv)) \<in> set ps" by blast
    then have "arg_ok (snd kv)"
      using assms(5) by (auto simp: list_all_iff arg_ok_def)
    with k show "key_ok (fst kv) \<and> text_ok env (snd kv)" by (simp add: arg_ok_text_ok)
  qed
  have "map fst (as_text env b) = map fst ps"
    using bv by (simp add: as_text_def comp_def)
  then show "bind_args ps [] (as_text env b) = Inr (as_text env b)"
    using assms(4) by (rule bind_args_keywords_only)
  show "separate_args (map (encode_arg env) b) = ([], as_text env b)"
    using ok d by (rule separate_args_encoded)
qed

lemma params_ok:
  "distinct (map fst Point_params)"
  "list_all (\<lambda>p. key_ok (fst p) \<and> (\<forall>v. snd p = Some v \<longrightarrow> arg_ok v)) Point_params"
  "distinct (map fst Label_params)"
  "list_all (\<lambda>p. key_ok (fst p) \<and> (\<forall>v. snd p = Some v \<longrightarrow> arg_ok v)) Label_params"
  "distinct (map fst Jump_params)"
  "list_all (\<lambda>p. key_ok (fst p) \<and> (\<forall>v. snd p = Some v \<longrightarrow> arg_ok v)) Jump_params"
  "distinct (map fst Setting_params)"
  "list_all (\<lambda>p. key_ok (fst p) \<and> (\<forall>v. snd p = Some v \<longrightarrow> arg_ok v)) Setting_params"
  by (simp_all add: Point_params_def Label_params_def Jump_params_def Setting_params_def
      key_ok_params arg_ok_defaults)

subsection \<open>Constructing from the text of the arguments\<close>

lemma from_row_arg_ok: "from_row v \<Longrightarrow> arg_ok v"
  by (simp add: arg_ok_def)

lemma Point_init_as_text:
  assumes "bind_args Point_params args kw = Inr b"
    and "list_all from_row args" and "list_all from_row (map snd kw)"
    and "Point_init env b = Inr p"
  shows "Point_init env (as_text env b) = Inr (p\<lparr>init_args := as_text env b\<rparr>)"
proof -
  note ba = bound_arg [OF assms(1-3) params_ok(1)]
  note bo = bound_arg_ok [OF assms(1-3) params_ok(1)]
  from ba [of "''x''" None] obtain vx where
    x: "map_of b ''x'' = Some vx" "arg b ''x'' = vx" "from_row vx"
    by (auto simp: Point_params_def)
  from ba [of "''y''" None] obtain vy where
    y: "map_of b ''y'' = Some vy" "arg b ''y'' = vy" "from_row vy"
    by (auto simp: Point_params_def)
  have "(''frequency'', Some (PInt 1)) \<in> set Point_params"
    by (simp add: Point_params_def)
  from bo [OF this] obtain vf where
    f: "map_of b ''frequency'' = Some vf" "arg b ''frequency'' = vf" "arg_ok vf"
    by (auto simp: arg_ok_defaults)
  have "(''skip'', Some (PStr ''False'')) \<in> set Point_params"
    by (simp add: Point_params_def)
  from bo [OF this] obtain vs where
    s: "map_of b ''skip'' = Some vs" "arg b ''skip'' = vs" "arg_ok vs"
    by (auto simp: arg_ok_defaults)
  have "(''adjust'', Some (PStr ''False'')) \<in> set Point_params"
    by (simp add: Point_params_def)
  from bo [OF this] obtain va where
    a: "map_of b ''adjust'' = Some va" "arg b ''adjust'' = va" "arg_ok va"
    by (auto simp: arg_ok_defaults)
  have t: "arg (as_text env b) ''x'' = vx" "arg (as_text env b) ''y'' = vy"
    using x y by (simp_all add: arg_as_text from_row_again)
  have u: "validate_nonzero_int (arg (as_text env b) ''frequency'') = validate_nonzero_int vf"
    "validate_boolean (arg (as_text env b) ''skip'') = validate_boolean vs"
    "validate_boolean (arg (as_text env b) ''adjust'') = validate_boolean va"
    using f s a by (simp_all add: arg_as_text validate_nonzero_int_text validate_boolean_text)
  from assms(4) show ?thesis
    unfolding Point_init_def t u x(2) y(2) f(2) s(2) a(2)
    by (auto split: sum.splits)
qed

lemma Jump_init_as_text:
  assumes "bind_args Jump_params args kw = Inr b"
    and "list_all from_row args" and "list_all from_row (map snd kw)"
    and "Jump_init env b = Inr j"
  shows "Jump_init env (as_text env b) = Inr (j\<lparr>init_args := as_text env b\<rparr>)"
proof -
  note ba = bound_arg [OF assms(1-3) params_ok(5)]
  note bo = bound_arg_ok [OF assms(1-3) params_ok(5)]
  from ba [of "''label''" None] obtain vl where
    l: "map_of b ''label'' = Some vl" "arg b ''label'' = vl" "from_row vl"
    by (auto simp: Jump_params_def)
  have "(''frequency'', Some (PInt 1)) \<in> set Jump_params"
    by (simp add: Jump_params_def)
  from bo [OF this] obtain vf where
    f: "map_of b ''frequency'' = Some vf" "arg b ''frequency'' = vf" "arg_ok vf"
    by (auto simp: arg_ok_defaults)
  have "(''skip'', Some (PStr ''False'')) \<in> set Jump_params"
    by (simp add: Jump_params_def)
  from bo [OF this] obtain vs where
    s: "map_of b ''skip'' = Some vs" "arg b ''skip'' = vs" "arg_ok vs"
    by (auto simp: arg_ok_defaults)
  have t: "arg (as_text env b) ''label'' = vl"
    using l by (simp add: arg_as_text from_row_again)
  have u: "validate_nonzero_int (arg (as_text env b) ''frequency'') = validate_nonzero_int vf"
    "validate_boolean (arg (as_text env b) ''skip'') = validate_boolean vs"
    using f s by (simp_all add: arg_as_text validate_nonzero_int_text validate_boolean_text)
  from assms(4) show ?thesis
    unfolding Jump_init_def t u l(2) f(2) s(2)
    by (auto split: sum.splits)
qed

lemma Label_init_as_text:
  assumes "bind_args Label_params args kw = Inr b"
    and "list_all from_row args" and "list_all from_row (map snd kw)"
    and "Label_init env lbls b = Inr l" and "lbls2 (label.label l) = None"
  shows "Label_init env lbls2 (as_text env b) = Inr (l\<lparr>init_args := as_text env b\<rparr>)"
proof -
  note ba = bound_arg [OF assms(1-3) params_ok(3)]
  from ba [of "''label''" None] obtain vl where
    l: "map_of b ''label'' = Some vl" "arg b ''label'' = vl" "from_row vl"
    by (auto simp: Label_params_def)
  have t: "arg (as_text env b) ''label'' = vl"
    using l by (simp add: arg_as_text from_row_again)
  from assms(4,5) show ?thesis
    unfolding Label_init_def t l(2)
    by (auto split: if_splits)
qed

lemma Setting_init_as_text:
  assumes "bind_args Setting_params args kw = Inr b"
    and "list_all from_row args" and "list_all from_row (map snd kw)"
    and "Setting_init env b = Inr s"
  shows "Setting_init env (as_text env b) = Inr (s\<lparr>init_args := as_text env b\<rparr>)"
proof -
  note ba = bound_arg [OF assms(1-3) params_ok(7)]
  from ba [of "''key''" None] obtain vk where
    k: "map_of b ''key'' = Some vk" "arg b ''key'' = vk" "from_row vk"
    by (auto simp: Setting_params_def)
  from ba [of "''value''" None] obtain vv where
    v: "map_of b ''value'' = Some vv" "arg b ''value'' = vv" "from_row vv"
    by (auto simp: Setting_params_def)
  have t: "arg (as_text env b) ''key'' = vk" "arg (as_text env b) ''value'' = vv"
    using k v by (simp_all add: arg_as_text from_row_again)
  from assms(4) show ?thesis
    unfolding Setting_init_def t k(2) v(2)
    by (auto split: sum.splits option.splits)
qed


subsection \<open>Compiling the encoded text\<close>

lemma compile_blank_row: "compile_rows env ([] # rows) r cp i = compile_rows env rows r cp (i + 1)"
  by (simp add: Routine_eval_def place_def split: sum.splits)

lemma compile_one_row:
  assumes "find_class env (lower g) = Some c"
    and "new_object env r c (fst (separate_args rest)) (snd (separate_args rest)) = Inr ob"
  shows "compile_rows env [g # rest] r cp i =
           Inr (fst (place (fst (register r ob)) cp (Some (snd (register r ob)))), [])"
  using assms by (simp add: Routine_eval_def)

lemma compile_encoded_rows:
  assumes "find_class env (lower g) = Some c"
    and "new_object env r c (fst (separate_args rest)) (snd (separate_args rest)) = Inr ob'"
  shows "compile_rows env (blank_rows ob @ [g # rest]) r cp i =
           Inr (fst (place (fst (register r ob')) cp (Some (snd (register r ob')))), [])"
proof (cases ob)
  case (Label l)
  then show ?thesis
    using compile_one_row [OF assms, of cp "i + 1"] by (simp only: blank_rows.simps append_Cons append_Nil compile_blank_row)
next
  case (Point p)
  then show ?thesis
    using compile_one_row [OF assms, of cp i] by (simp only: blank_rows.simps append_Nil)
next
  case (Jump j)
  then show ?thesis
    using compile_one_row [OF assms, of cp i] by (simp only: blank_rows.simps append_Nil)
next
  case (Setting s)
  then show ?thesis
    using compile_one_row [OF assms, of cp i] by (simp only: blank_rows.simps append_Nil)
next
  case (Command k)
  then show ?thesis
    using compile_one_row [OF assms, of cp i] by (simp only: blank_rows.simps append_Nil)
qed

lemma map_sum_Inr: "map_sum id g x = Inr y \<Longrightarrow> \<exists>p. x = Inr p \<and> y = g p"
  by (cases x) auto

lemma symbol_fields:
  "field_ok ''*''" "field_ok ''@''" "field_ok ''>''" "field_ok ''$''"
  "SYMBOLS (lower ''*'') = Some PointClass" "SYMBOLS (lower ''@'') = Some LabelClass"
  "SYMBOLS (lower ''>'') = Some JumpClass" "SYMBOLS (lower ''$'') = Some SettingClass"
  by (simp_all add: field_ok_def plain_def is_eol_def SYMBOLS_def lower_def lower_char_def)

lemma encoded_fields_ok:
  assumes "list_all (\<lambda>kv. key_ok (fst kv) \<and> text_ok env (snd kv)) b" and "field_ok g"
  shows "list_all field_ok (g # map (encode_arg env) b)"
  using assms by (auto simp: list_all_iff encoded_field_ok)

lemma SYMBOLS_cases:
  assumes "SYMBOLS s = Some c"
  shows "c = PointClass \<or> c = LabelClass \<or> c = JumpClass \<or> c = SettingClass"
  using assms by (auto simp: SYMBOLS_def split: if_splits)

lemma find_class_symbol: "SYMBOLS s = Some c \<Longrightarrow> find_class env s = Some c"
  by (simp add: find_class_def)

lemma find_class_cases:
  assumes "find_class env s = Some c"
  shows "c = PointClass \<or> c = LabelClass \<or> c = JumpClass \<or> c = SettingClass \<or>
         (\<exists>k. c = CommandClass k)"
  by (cases c) simp_all

subsection \<open>The instruction that evaluating a row returns\<close>

lemma snd_register: "snd (register r ob) = length (heap r)"
  by (simp add: register_def split: obj.splits)

lemma heap_get_register:
  "heap_get (fst (register r ob)) (length (heap r)) = Some (reindexed (length (sequence r)) ob)"
  by (cases ob) (simp_all add: register_def heap_get_def)

lemma register_reindexed: "register r (reindexed n ob) = register r ob"
  by (cases ob) (simp_all add: register_def)

lemma encode_reindexed: "encode env (reindexed n ob) = encode env ob"
  by (cases ob) (simp_all add: encode_def Label_encode_def Component_encode_def)

lemma reparsed_reindexed: "reparsed env (reindexed n ob) = reindexed n (reparsed env ob)"
  by (cases ob) (simp_all add: reparsed_def)

lemma rebuilds_reindexed: "rebuilds env (reindexed n ob) = rebuilds env ob"
  by (cases ob) simp_all

lemma unregistered_reindexed: "unregistered r (reindexed n ob) = unregistered r ob"
  by (cases ob) simp_all

lemma unregistered_reparsed: "unregistered r (reparsed env ob) = unregistered r ob"
  by (cases ob) (simp_all add: reparsed_def)

lemma heap_get_place:
  "heap_get (fst (place r cp (Some a))) a = heap_get r a"
  by (auto simp: place_def add_command_def heap_get_def heap_put_def Routine_append_def
      nth_list_update split: option.splits obj.splits)

lemma as_text_ok:
  assumes "list_all (\<lambda>kv. key_ok (fst kv) \<and> text_ok env (snd kv)) b"
  shows "list_all (\<lambda>kv. key_ok (fst kv) \<and> text_ok env (snd kv)) (as_text env b)"
  using assms by (auto simp: list_all_iff as_text_def text_ok_def py_str_def)

lemma encode_arg_as_text: "map (encode_arg env) (as_text env b) = map (encode_arg env) b"
  by (simp add: as_text_def encode_arg_def py_str_def)

lemma Component_encode_as_text:
  assumes "list_all (\<lambda>kv. key_ok (fst kv) \<and> text_ok env (snd kv)) (init_args c)"
  shows "Component_encode env (c\<lparr>init_args := as_text env (init_args c)\<rparr>) = Component_encode env c"
  using Component_encode_all [where c = "c\<lparr>init_args := as_text env (init_args c)\<rparr>" and env = env]
    Component_encode_all [OF assms] as_text_ok [OF assms]
  by (simp add: encode_arg_as_text)


lemma reindexed_reindexed: "reindexed m (reindexed n ob) = reindexed m ob"
  by (cases ob) simp_all

lemma blank_rows_reindexed: "blank_rows (reindexed n ob) = blank_rows ob"
  by (cases ob) simp_all

lemma Routine_eval_object:
  assumes "Routine_eval env r (f # rest) i = Inr (r1, Some a, evs)"
  shows "\<exists>c ob. new_object env r c (fst (separate_args rest)) (snd (separate_args rest)) = Inr ob \<and>
           r1 = fst (register r ob) \<and> a = length (heap r) \<and> evs = []"
  using assms
  by (auto simp: Routine_eval_def snd_register split: option.splits sum.splits if_splits)

lemma Routine_eval_constructed:
  assumes "find_class env (lower g) = Some c"
    and "new_object env r c (fst (separate_args rest)) (snd (separate_args rest)) = Inr ob"
  shows "Routine_eval env r (g # rest) i = Inr (fst (register r ob), Some (length (heap r)), [])"
  using assms by (simp add: Routine_eval_def snd_register)

subsection \<open>Constructing from the encoded text\<close>

lemma roundtrip_constructed:
  assumes "list_all plain rest"
    and "new_object env r c (fst (separate_args rest)) (snd (separate_args rest)) = Inr ob"
    and "rebuilds env ob"
    and "unregistered r2 ob"
  shows "\<exists>g b c'.
      csv_reader (encode env ob) = Inr (blank_rows ob @ [g # map (encode_arg env) b]) \<and>
      find_class env (lower g) = Some c' \<and>
      separate_args (map (encode_arg env) b) = ([], as_text env b) \<and>
      new_object env r2 c' [] (as_text env b) = Inr (reparsed env ob) \<and>
      encode env (reparsed env ob) = encode env ob"
proof -
  let ?args = "fst (separate_args rest)" and ?kw = "snd (separate_args rest)"
  from separate_args_from_row [OF assms(1)]
  have fa: "list_all from_row ?args" and fk: "list_all from_row (map snd ?kw)"
    by simp_all
  show ?thesis
  proof (cases c)
    case PointClass
    with assms(2) obtain b p where b: "bind_args Point_params ?args ?kw = Inr b"
      and p: "Point_init env b = Inr p" and ob: "ob = Point p"
      by (auto simp: new_object_def split: sum.splits dest!: map_sum_Inr)
    from p have ip: "ident p = ''*''" "init_args p = b"
      by (auto simp: Point_init_def split: sum.splits)
    note ok = bound_args_ok [OF b fa fk params_ok(1,2)]
    have "encode env ob = join '', '' (''*'' # map (encode_arg env) b)"
      using Component_encode_all [of env p] ok(1) by (simp add: ob encode_def ip)
    then have "csv_reader (encode env ob) = Inr [''*'' # map (encode_arg env) b]"
      using csv_reader_line [OF encoded_fields_ok [OF ok(1) symbol_fields(1)]] by simp
    moreover have "new_object env r2 PointClass [] (as_text env b) = Inr (reparsed env ob)"
      using ok(3) Point_init_as_text [OF b fa fk p]
      by (simp add: new_object_def ob reparsed_def ip)
    moreover have "encode env (reparsed env ob) = encode env ob"
      using Component_encode_as_text [of env p] ok(1) by (simp add: ob reparsed_def encode_def ip)
    ultimately show ?thesis
      using ok(4) find_class_symbol [OF symbol_fields(5)] by (auto simp: ob)
  next
    case LabelClass
    with assms(2) obtain b l where b: "bind_args Label_params ?args ?kw = Inr b"
      and l: "Label_init env (labels r) b = Inr l" and ob: "ob = Label l"
      by (auto simp: new_object_def split: sum.splits dest!: map_sum_Inr)
    from l have il: "ident l = ''@''" "init_args l = b"
      by (auto simp: Label_init_def split: if_splits)
    from assms(4) have free: "labels r2 (label.label l) = None"
      by (simp add: ob)
    note ok = bound_args_ok [OF b fa fk params_ok(3,4)]
    have "encode env ob = CHR 0x0A # join '', '' (''@'' # map (encode_arg env) b)"
      using Component_encode_all [of env l] ok(1) by (simp add: ob encode_def Label_encode_def il)
    then have "csv_reader (encode env ob) = Inr [[], ''@'' # map (encode_arg env) b]"
      using csv_reader_blank_line [OF encoded_fields_ok [OF ok(1) symbol_fields(2)]]
      by simp
    moreover have "new_object env r2 LabelClass [] (as_text env b) = Inr (reparsed env ob)"
      using ok(3) Label_init_as_text [OF b fa fk l, of "labels r2"] free
      by (simp add: new_object_def ob reparsed_def il)
    moreover have "encode env (reparsed env ob) = encode env ob"
      using Component_encode_as_text [of env l] ok(1)
      by (simp add: ob reparsed_def encode_def Label_encode_def il)
    ultimately show ?thesis
      using ok(4) find_class_symbol [OF symbol_fields(6)] by (auto simp: ob)
  next
    case JumpClass
    with assms(2) obtain b j where b: "bind_args Jump_params ?args ?kw = Inr b"
      and j: "Jump_init env b = Inr j" and ob: "ob = Jump j"
      by (auto simp: new_object_def split: sum.splits dest!: map_sum_Inr)
    from j have ij: "ident j = ''>''" "init_args j = b"
      by (auto simp: Jump_init_def split: sum.splits)
    note ok = bound_args_ok [OF b fa fk params_ok(5,6)]
    have "encode env ob = join '', '' (''>'' # map (encode_arg env) b)"
      using Component_encode_all [of env j] ok(1) by (simp add: ob encode_def ij)
    then have "csv_reader (encode env ob) = Inr [''>'' # map (encode_arg env) b]"
      using csv_reader_line [OF encoded_fields_ok [OF ok(1) symbol_fields(3)]] by simp
    moreover have "new_object env r2 JumpClass [] (as_text env b) = Inr (reparsed env ob)"
      using ok(3) Jump_init_as_text [OF b fa fk j]
      by (simp add: new_object_def ob reparsed_def ij)
    moreover have "encode env (reparsed env ob) = encode env ob"
      using Component_encode_as_text [of env j] ok(1) by (simp add: ob reparsed_def encode_def ij)
    ultimately show ?thesis
      using ok(4) find_class_symbol [OF symbol_fields(7)] by (auto simp: ob)
  next
    case SettingClass
    with assms(2) obtain b s where b: "bind_args Setting_params ?args ?kw = Inr b"
      and s: "Setting_init env b = Inr s" and ob: "ob = Setting s"
      by (auto simp: new_object_def split: sum.splits dest!: map_sum_Inr)
    from s have ids: "ident s = ''$''" "init_args s = b"
      by (auto simp: Setting_init_def split: sum.splits option.splits)
    note ok = bound_args_ok [OF b fa fk params_ok(7,8)]
    have "encode env ob = join '', '' (''$'' # map (encode_arg env) b)"
      using Component_encode_all [of env s] ok(1) by (simp add: ob encode_def ids)
    then have "csv_reader (encode env ob) = Inr [''$'' # map (encode_arg env) b]"
      using csv_reader_line [OF encoded_fields_ok [OF ok(1) symbol_fields(4)]] by simp
    moreover have "new_object env r2 SettingClass [] (as_text env b) = Inr (reparsed env ob)"
      using ok(3) Setting_init_as_text [OF b fa fk s]
      by (simp add: new_object_def ob reparsed_def ids)
    moreover have "encode env (reparsed env ob) = encode env ob"
      using Component_encode_as_text [of env s] ok(1) by (simp add: ob reparsed_def encode_def ids)
    ultimately show ?thesis
      using ok(4) find_class_symbol [OF symbol_fields(8)] by (auto simp: ob)
  next
    case (CommandClass k)
    with assms(2) obtain a where ob: "ob = Command a"
      by (auto simp: new_object_def dest!: map_sum_Inr)
    from assms(3) obtain k' where
      fc: "find_class env (lower (ident a)) = Some (CommandClass k')" and
      g: "field_ok (ident a)" and d: "distinct (map fst (init_args a))" and
      ok: "list_all (\<lambda>kv. key_ok (fst kv) \<and> text_ok env (snd kv)) (init_args a)" and
      again: "construct k' [] (as_text env (init_args a)) =
                Inr (a\<lparr>init_args := as_text env (init_args a)\<rparr>)"
      by (auto simp: ob rebuilds_command_def split: option.splits pyclass.splits)
    have "encode env ob = join '', '' (ident a # map (encode_arg env) (init_args a))"
      using Component_encode_all [OF ok] by (simp add: ob encode_def)
    then have "csv_reader (encode env ob) = Inr [ident a # map (encode_arg env) (init_args a)]"
      using csv_reader_line [OF encoded_fields_ok [OF ok g]] by simp
    moreover have "new_object env r2 (CommandClass k') [] (as_text env (init_args a)) =
        Inr (reparsed env ob)"
      using again by (simp add: new_object_def ob reparsed_def)
    moreover have "encode env (reparsed env ob) = encode env ob"
      using Component_encode_as_text [OF ok] by (simp add: ob reparsed_def encode_def)
    ultimately show ?thesis
      using separate_args_encoded [OF ok d] fc by (auto simp: ob)
  qed
qed

lemma lower_capitals:
  "char_of (119::nat) = CHR ''w''" "char_of (109::nat) = CHR ''m''"
  by code_simp+

text \<open>
  C5, amended. Take a row whose fields after the first hold no comma and no line break,
  and the instruction \<open>ob\<close> that \<^verbatim>\<open>_eval\<close> returns for it (a Label with the index \<^verbatim>\<open>_eval\<close>
  has set). If it is an Action, let the command book rebuild it (\<open>rebuilds\<close>); an
  instruction of one of the four classes of this module needs nothing. The encoding of
  \<open>ob\<close> reads back, through the CSV reader, as one row (after an empty row, for a Label).
  In a routine where the name of a Label is not registered, \<^verbatim>\<open>_eval\<close> returns for that row
  one instruction, which is \<open>ob\<close> except for two things:

    \<^item> its captured constructor arguments are the original's as text (a default
      frequency, the integer 1, comes back as the text \<^verbatim>\<open>1\<close>); every attribute computed
      from the arguments is the original's;

    \<^item> the index of a Label is the length of the sequence of the routine now compiled,
      not the original's: the index is no constructor argument and the encoding does
      not hold it.

  The encoding of that instruction is the encoding of \<open>ob\<close>, and compiling the encoded
  text registers and places exactly that instruction.
\<close>

theorem encode_roundtrip:
  assumes "list_all plain rest"
    and "Routine_eval env r (f # rest) i = Inr (r1, Some a, evs)"
    and "heap_get r1 a = Some ob"
    and "rebuilds env ob"
    and "unregistered r2 ob"
  shows "\<exists>row r3.
           csv_reader (encode env ob) = Inr (blank_rows ob @ [row]) \<and>
           Routine_eval env r2 row j = Inr (r3, Some (length (heap r2)), []) \<and>
           heap_get r3 (length (heap r2)) =
             Some (reindexed (length (sequence r2)) (reparsed env ob)) \<and>
           encode env (reindexed (length (sequence r2)) (reparsed env ob)) = encode env ob \<and>
           compile_rows env (blank_rows ob @ [row]) r2 cp j =
             Inr (fst (place r3 cp (Some (length (heap r2)))), []) \<and>
           heap_get (fst (place r3 cp (Some (length (heap r2))))) (length (heap r2)) =
             Some (reindexed (length (sequence r2)) (reparsed env ob))"
proof -
  from Routine_eval_object [OF assms(2)] obtain c ob0 where
    new: "new_object env r c (fst (separate_args rest)) (snd (separate_args rest)) = Inr ob0" and
    r1: "r1 = fst (register r ob0)" and a: "a = length (heap r)"
    by blast
  from assms(3) have ob: "ob = reindexed (length (sequence r)) ob0"
    by (simp add: r1 a heap_get_register)
  from assms(4,5) have "rebuilds env ob0" and "unregistered r2 ob0"
    by (simp_all add: ob rebuilds_reindexed unregistered_reindexed)
  from roundtrip_constructed [OF assms(1) new this] obtain g b c' where
    csv: "csv_reader (encode env ob0) = Inr (blank_rows ob0 @ [g # map (encode_arg env) b])" and
    fc: "find_class env (lower g) = Some c'" and
    sep: "separate_args (map (encode_arg env) b) = ([], as_text env b)" and
    again: "new_object env r2 c' [] (as_text env b) = Inr (reparsed env ob0)" and
    enc: "encode env (reparsed env ob0) = encode env ob0"
    by blast
  let ?row = "g # map (encode_arg env) b"
  let ?r3 = "fst (register r2 (reparsed env ob0))"
  let ?n = "length (heap r2)"
  let ?ob' = "reindexed (length (sequence r2)) (reparsed env ob)"
  from again sep have new': "new_object env r2 c' (fst (separate_args (map (encode_arg env) b)))
      (snd (separate_args (map (encode_arg env) b))) = Inr (reparsed env ob0)"
    by simp
  have same: "?ob' = reindexed (length (sequence r2)) (reparsed env ob0)"
    by (simp add: ob reparsed_reindexed reindexed_reindexed)
  have 1: "csv_reader (encode env ob) = Inr (blank_rows ob @ [?row])"
    using csv by (simp add: ob encode_reindexed blank_rows_reindexed)
  have 2: "Routine_eval env r2 ?row j = Inr (?r3, Some ?n, [])"
    by (rule Routine_eval_constructed [OF fc new'])
  have 3: "heap_get ?r3 ?n = Some ?ob'"
    unfolding same by (rule heap_get_register)
  have 4: "encode env ?ob' = encode env ob"
    unfolding same by (simp add: ob encode_reindexed enc)
  have 5: "compile_rows env (blank_rows ob @ [?row]) r2 cp j = Inr (fst (place ?r3 cp (Some ?n)), [])"
    using compile_encoded_rows [OF fc new', of ob cp j] by (simp only: snd_register)
  have 6: "heap_get (fst (place ?r3 cp (Some ?n))) ?n = Some ?ob'"
    using 3 by (simp only: heap_get_place)
  from 1 2 3 4 5 6 show ?thesis by blast
qed


text \<open>
  Against C5 as stated, two valid rows that do not come back.

  The row \<^verbatim>\<open>@, "a,b"\<close> constructs the Label \<^verbatim>\<open>a,b\<close>. Its encoding puts the name after
  \<^verbatim>\<open>label=\<close> as it is; read back, the comma splits it into two fields, the constructor gets
  \<^verbatim>\<open>label\<close> twice and raises \<^verbatim>\<open>TypeError\<close>, and no instruction comes back.

  The row \<^verbatim>\<open>wait, 5\<close> constructs an Action of a class that passes no arguments on to
  \<^verbatim>\<open>Command.__init__\<close>. Its encoding is the class name alone; read back, the constructor
  misses its argument and raises \<^verbatim>\<open>TypeError\<close>, and no instruction comes back.
\<close>

theorem roundtrip_counterexample:
  "Routine_eval sample_env Routine_init [''@'', ''a,b''] 1 =
     Inr (Routine_init\<lparr>heap := [Label comma_label], labels := [''a,b'' \<mapsto> 0]\<rparr>, Some 0, []) \<and>
   encode sample_env (Label comma_label) = CHR 0x0A # ''@, label=a,b'' \<and>
   csv_reader (CHR 0x0A # ''@, label=a,b'') = Inr [[], [''@'', ''label=a'', ''b'']] \<and>
   compile_rows sample_env [[], [''@'', ''label=a'', ''b'']] Routine_init None 1 =
     Inr (Routine_init, [InvalidArguments 2 ''Label'' TypeError]) \<and>
   Routine_eval forgetful_env one_point_routine [''wait'', ''5''] 2 =
     Inr (one_point_routine\<lparr>heap := [Point sample_point, Command forgetful_action]\<rparr>, Some 1, []) \<and>
   encode forgetful_env (Command forgetful_action) = ''Wait'' \<and>
   csv_reader ''Wait'' = Inr [[''Wait'']] \<and>
   compile_rows forgetful_env [[''Wait'']] one_point_routine (Some 0) 1 =
     Inr (one_point_routine, [InvalidArguments 1 ''Wait'' TypeError])"
proof -
  have a: "Routine_eval sample_env Routine_init [''@'', ''a,b''] 1 =
     Inr (Routine_init\<lparr>heap := [Label comma_label], labels := [''a,b'' \<mapsto> 0]\<rparr>, Some 0, [])"
    by (simp add: text_defs construct_defs compile_defs sample_defs comma_label_def)
  have b: "encode sample_env (Label comma_label) = CHR 0x0A # ''@, label=a,b''"
    by (simp add: encode_def Label_encode_def Component_encode_def encode_arg_def py_str_def
        comma_label_def)
  have c: "csv_reader (CHR 0x0A # ''@, label=a,b'') = Inr [[], [''@'', ''label=a'', ''b'']]"
    by (simp add: csv_defs)
  have d: "compile_rows sample_env [[], [''@'', ''label=a'', ''b'']] Routine_init None 1 =
     Inr (Routine_init, [InvalidArguments 2 ''Label'' TypeError])"
    by (simp add: text_defs construct_defs compile_defs sample_defs)
  have e: "Routine_eval forgetful_env one_point_routine [''wait'', ''5''] 2 =
     Inr (one_point_routine\<lparr>heap := [Point sample_point, Command forgetful_action]\<rparr>, Some 1, [])"
    by (simp add: text_defs construct_defs compile_defs sample_defs forgetful_env_def
        forgetful_class_def forgetful_action_def)
  have f: "encode forgetful_env (Command forgetful_action) = ''Wait''"
    by (simp add: encode_def Component_encode_def forgetful_action_def)
  have g: "csv_reader ''Wait'' = Inr [[''Wait'']]"
    by (simp add: csv_defs)
  have h: "compile_rows forgetful_env [[''Wait'']] one_point_routine (Some 0) 1 =
     Inr (one_point_routine, [InvalidArguments 1 ''Wait'' TypeError])"
    by (simp add: text_defs construct_defs compile_defs sample_defs forgetful_env_def
        forgetful_class_def lower_capitals)
  from a b c d e f g h show ?thesis by (intro conjI)
qed


text \<open>
  The Label \<open>start\<close> parsed at position 1 comes back with index 0 in an empty routine; the
  first Point of the sample comes back with its default frequency as text; the Action of
  the row \<^verbatim>\<open>move, 1, 2\<close> comes back as it was, and is attached to the current Point.
\<close>

theorem encode_roundtrip_witness:
  "(\<exists>row r3.
      csv_reader (encode sample_env (Label (sample_label\<lparr>label.index := Some 1\<rparr>))) =
        Inr [[], row] \<and>
      Routine_eval sample_env Routine_init row 1 = Inr (r3, Some 0, []) \<and>
      heap_get r3 0 = Some (Label (sample_label\<lparr>label.index := Some 0\<rparr>))) \<and>
   (\<exists>row r3.
      csv_reader (encode sample_env (Point sample_point)) = Inr [row] \<and>
      Routine_eval sample_env compiled_routine row 5 = Inr (r3, Some 4, []) \<and>
      heap_get r3 4 =
        Some (Point (sample_point\<lparr>init_args :=
          [(''x'', PStr ''100''), (''y'', PStr ''200''), (''frequency'', PStr ''1''),
           (''skip'', PStr ''False''), (''adjust'', PStr ''False'')]\<rparr>))) \<and>
   (\<exists>row r3.
      csv_reader (encode sample_env (Command sample_action)) = Inr [row] \<and>
      Routine_eval sample_env one_point_routine row 2 = Inr (r3, Some 1, []) \<and>
      heap_get r3 1 = Some (Command sample_action) \<and>
      compile_rows sample_env [row] one_point_routine (Some 0) 2 =
        Inr (fst (place r3 (Some 0) (Some 1)), []))"
proof -
  have l1: "list_all plain [''start'']" and p1: "list_all plain [''100'', ''200'']"
    and c1: "list_all plain [''1'', ''2'']"
    by (simp_all add: plain_def is_eol_def)
  have l2: "Routine_eval sample_env one_point_routine (''@'' # [''start'']) 2 =
     Inr (one_point_routine
            \<lparr>heap := [Point sample_point, Label (sample_label\<lparr>label.index := Some 1\<rparr>)],
             labels := [''start'' \<mapsto> 1]\<rparr>, Some 1, [])"
    by (simp add: text_defs construct_defs compile_defs sample_defs)
  have l3: "heap_get (one_point_routine
            \<lparr>heap := [Point sample_point, Label (sample_label\<lparr>label.index := Some 1\<rparr>)],
             labels := [''start'' \<mapsto> 1]\<rparr>) 1 = Some (Label (sample_label\<lparr>label.index := Some 1\<rparr>))"
    by (simp add: heap_get_def)
  have l4: "rebuilds sample_env (Label (sample_label\<lparr>label.index := Some 1\<rparr>))"
    and l5: "unregistered Routine_init (Label (sample_label\<lparr>label.index := Some 1\<rparr>))"
    by (simp_all add: Routine_init_def sample_label_def)
  have l6: "reindexed (length (sequence Routine_init))
              (reparsed sample_env (Label (sample_label\<lparr>label.index := Some 1\<rparr>))) =
            Label (sample_label\<lparr>label.index := Some 0\<rparr>)"
    by (simp add: reparsed_def as_text_def py_str_def sample_label_def Routine_init_def)
  have l7: "length (heap Routine_init) = 0"
    by (simp add: Routine_init_def)
  have p2: "Routine_eval sample_env Routine_init (''*'' # [''100'', ''200'']) 1 =
     Inr (Routine_init\<lparr>heap := [Point sample_point]\<rparr>, Some 0, [])"
    by (simp add: text_defs construct_defs compile_defs sample_defs)
  have p3: "heap_get (Routine_init\<lparr>heap := [Point sample_point]\<rparr>) 0 = Some (Point sample_point)"
    by (simp add: heap_get_def)
  have p4: "rebuilds sample_env (Point sample_point)"
    and p5: "unregistered compiled_routine (Point sample_point)"
    by simp_all
  have p6: "reindexed (length (sequence compiled_routine)) (reparsed sample_env (Point sample_point)) =
      Point (sample_point\<lparr>init_args :=
        [(''x'', PStr ''100''), (''y'', PStr ''200''), (''frequency'', PStr ''1''),
         (''skip'', PStr ''False''), (''adjust'', PStr ''False'')]\<rparr>)"
    by (simp add: reparsed_def as_text_def py_str_def str_int_1 sample_point_def)
  have p7: "length (heap compiled_routine) = 4"
    by (simp add: compiled_routine_def)
  have c2: "Routine_eval sample_env one_point_routine (''move'' # [''1'', ''2'']) 2 =
     Inr (one_point_routine\<lparr>heap := [Point sample_point, Command sample_action]\<rparr>, Some 1, [])"
    by (simp add: text_defs construct_defs compile_defs sample_defs action_class_def
        sample_action_def)
  have c3: "heap_get (one_point_routine\<lparr>heap := [Point sample_point, Command sample_action]\<rparr>) 1 =
      Some (Command sample_action)"
    by (simp add: heap_get_def)
  have c4: "rebuilds sample_env (Command sample_action)"
    by (simp add: rebuilds_command_def text_defs construct_defs sample_defs action_class_def
        sample_action_def field_ok_def key_ok_def text_ok_def row_text_def
        plain_def is_eol_def as_text_def lower_capitals)
  have c5: "unregistered one_point_routine (Command sample_action)"
    by simp
  have c6: "reindexed (length (sequence one_point_routine))
              (reparsed sample_env (Command sample_action)) = Command sample_action"
    by (simp add: reparsed_def as_text_def py_str_def sample_action_def)
  have c7: "length (heap one_point_routine) = 1"
    by (simp add: one_point_routine_def)
  from encode_roundtrip [OF l1 l2 l3 l4 l5, of 1 None]
  have first: "\<exists>row r3.
      csv_reader (encode sample_env (Label (sample_label\<lparr>label.index := Some 1\<rparr>))) =
        Inr [[], row] \<and>
      Routine_eval sample_env Routine_init row 1 = Inr (r3, Some 0, []) \<and>
      heap_get r3 0 = Some (Label (sample_label\<lparr>label.index := Some 0\<rparr>))"
    unfolding l6 l7 by (simp only: blank_rows.simps append_Cons append_Nil) blast
  from encode_roundtrip [OF p1 p2 p3 p4 p5, of 5 None]
  have second: "\<exists>row r3.
      csv_reader (encode sample_env (Point sample_point)) = Inr [row] \<and>
      Routine_eval sample_env compiled_routine row 5 = Inr (r3, Some 4, []) \<and>
      heap_get r3 4 =
        Some (Point (sample_point\<lparr>init_args :=
          [(''x'', PStr ''100''), (''y'', PStr ''200''), (''frequency'', PStr ''1''),
           (''skip'', PStr ''False''), (''adjust'', PStr ''False'')]\<rparr>))"
    unfolding p6 p7 by (simp only: blank_rows.simps append_Cons append_Nil) blast
  from encode_roundtrip [OF c1 c2 c3 c4 c5, of 2 "Some 0"]
  have third: "\<exists>row r3.
      csv_reader (encode sample_env (Command sample_action)) = Inr [row] \<and>
      Routine_eval sample_env one_point_routine row 2 = Inr (r3, Some 1, []) \<and>
      heap_get r3 1 = Some (Command sample_action) \<and>
      compile_rows sample_env [row] one_point_routine (Some 0) 2 =
        Inr (fst (place r3 (Some 0) (Some 1)), [])"
    unfolding c6 c7 by (simp only: blank_rows.simps append_Cons append_Nil) blast
  from first second third show ?thesis by (intro conjI)
qed

end
